theory Spec2Isabelle
  imports Main "HOL-Library.Word" "HOL-Library.Stream" "HOL-Library.Monad_Syntax"
begin

unbundle bit_operations_syntax

section \<open>The mutation engine of the fuzzer (FuzzerMutate.cpp)\<close>

text \<open>
  A shallow embedding of \<^verbatim>\<open>MutationDispatcher\<close>. Conventions:
  \<^item> a \<^verbatim>\<open>uint8_t\<close> is an \<open>8 word\<close>; a buffer \<^verbatim>\<open>uint8_t *Data\<close> is the list of all bytes
    of the allocation it points to (its length is the allocation's capacity), and the
    \<^verbatim>\<open>Size\<close> and \<^verbatim>\<open>MaxSize\<close> arguments travel beside it as in the source;
  \<^item> a \<^verbatim>\<open>size_t\<close> is a \<open>nat\<close>: every size computed below is bounded by a buffer
    capacity, and each subtraction is guarded in the source by a test or an assertion;
  \<^item> a member function takes the dispatcher and returns
    \<open>Some (result, buffer, dispatcher)\<close>; \<open>None\<close> means that the call does not return:
    an \<^verbatim>\<open>assert\<close> failed, or memory outside a buffer was touched;
  \<^item> the \<^verbatim>\<open>uint64_t\<close> of \<^verbatim>\<open>Mutate_ChangeASCIIInteger\<close> and the integers of
    \<^verbatim>\<open>ChangeBinaryInteger\<close> are words, so that they wrap as in the source.
\<close>

type_synonym byte = "8 word"
type_synonym Unit = "byte list"

subsection \<open>Assertions and memory\<close>

definition assert :: "bool \<Rightarrow> unit option" where
  "assert b = (if b then Some () else None)"

text \<open>\<^verbatim>\<open>memmove(To + d, From + f, n)\<close>: the source bytes are read before any is written,
  so \<open>To\<close> and \<open>From\<close> may be the same buffer.\<close>

definition memmove :: "byte list \<Rightarrow> nat \<Rightarrow> byte list \<Rightarrow> nat \<Rightarrow> nat \<Rightarrow> byte list option" where
  "memmove To d From f n =
     (if d + n \<le> length To \<and> f + n \<le> length From
      then Some (take d To @ take n (drop f From) @ drop (d + n) To)
      else None)"

text \<open>\<^verbatim>\<open>memcpy(To + d, From + f, n)\<close>, used by the source between distinct buffers only.\<close>

definition memcpy :: "byte list \<Rightarrow> nat \<Rightarrow> byte list \<Rightarrow> nat \<Rightarrow> nat \<Rightarrow> byte list option" where
  "memcpy To d From f n = memmove To d From f n"

definition load :: "byte list \<Rightarrow> nat \<Rightarrow> byte option" where
  "load Data i = (if i < length Data then Some (Data ! i) else None)"

definition store :: "byte list \<Rightarrow> nat \<Rightarrow> byte \<Rightarrow> byte list option" where
  "store Data i b = (if i < length Data then Some (Data[i := b]) else None)"

text \<open>\<^verbatim>\<open>std::vector<uint8_t>::resize(n)\<close>: truncates, or appends zero bytes.\<close>

definition resize :: "nat \<Rightarrow> byte list \<Rightarrow> byte list" where
  "resize n xs = take n xs @ replicate (n - length xs) 0"

subsection \<open>Random source\<close>

text \<open>
  Modelled from the spec: the class \<^verbatim>\<open>Random\<close> (FuzzerRandom.h) is not part of the
  sources at hand. The spec (4.1) gives its contract: a deterministic generator, \<open>Next(n)\<close>
  returns a value in \<open>[0, n)\<close> for \<open>n > 0\<close>, \<open>Bool()\<close> returns a boolean. The generator is
  the stream of its raw outputs; a theorem about every stream holds for every seed.
  The spec says nothing about \<open>Next(0)\<close>, which the source does call (line 99 with
  \<^verbatim>\<open>Size == ShuffleAmount\<close>): the assertion of line 100 then needs the answer to be 0,
  and the model returns 0 there.
\<close>

type_synonym Random = "nat stream"

definition Rand_raw :: "Random \<Rightarrow> nat \<times> Random" where
  "Rand_raw R = (shd R, stl R)"

definition Rand_below :: "nat \<Rightarrow> Random \<Rightarrow> nat \<times> Random" where
  "Rand_below n R = (if n = 0 then (0, R) else (shd R mod n, stl R))"

definition RandBool :: "Random \<Rightarrow> bool \<times> Random" where
  "RandBool R = (odd (shd R), stl R)"

text \<open>
  \<^verbatim>\<open>RandCh\<close> (lines 64-68). \<^verbatim>\<open>Special\<close> is declared \<^verbatim>\<open>const char *\<close>, so
  \<^verbatim>\<open>sizeof(Special)\<close> is the size of a pointer, 8 where \<^verbatim>\<open>size_t\<close> has 64 bits, and
  the index is drawn below 7.
\<close>

definition Special :: "byte list" where
  "Special = [0x21, 0x2A, 0x27, 0x28, 0x29, 0x3B, 0x3A, 0x40, 0x26, 0x3D, 0x2B, 0x24,
              0x2C, 0x2F, 0x3F, 0x25, 0x23, 0x5B, 0x5D, 0x30, 0x31, 0x32, 0x41, 0x7A,
              0x2D, 0x60, 0x7E, 0x2E, 0xFF, 0x00, 0x00]"

definition sizeof_Special :: nat where
  "sizeof_Special = 8"

definition RandCh :: "Random \<Rightarrow> byte \<times> Random" where
  "RandCh R =
     (let (b, R1) = RandBool R in
      if b then (let (r, R2) = Rand_below 256 R1 in (of_nat r, R2))
      else (let (r, R2) = Rand_below (sizeof_Special - 1) R1 in (Special ! r, R2)))"

subsection \<open>Dictionaries\<close>

text \<open>
  Modelled from the spec: \<^verbatim>\<open>Word\<close>, \<^verbatim>\<open>DictionaryEntry\<close> and \<^verbatim>\<open>Dictionary\<close>
  (FuzzerDictionary.h) are not part of the sources at hand. By the spec (2, 3) a Word is
  an immutable byte sequence; a DictionaryEntry is a Word with an optional position hint,
  a use counter and a success counter; a Dictionary is a bounded, ordered collection of
  entries. The bound is the constant \<^verbatim>\<open>Dictionary::kMaxDictSize\<close> that line 23
  defines; its value is not in the sources and is a parameter of \<open>push_back\<close>.
  The two-argument constructor \<^verbatim>\<open>{W, n}\<close> of lines 360 and 433 builds an unused entry;
  the spec (4.7) reads its second argument as the success counter.
\<close>

type_synonym Word = "byte list"

record DictionaryEntry =
  GetW :: Word
  PositionHint :: "nat option"
  GetUseCount :: nat
  GetSuccessCount :: nat

type_synonym Dictionary = "DictionaryEntry list"

definition DictionaryEntry_init :: "Word \<Rightarrow> nat \<Rightarrow> DictionaryEntry" where
  "DictionaryEntry_init w n =
     \<lparr>GetW = w, PositionHint = None, GetUseCount = 0, GetSuccessCount = n\<rparr>"

definition HasPositionHint :: "DictionaryEntry \<Rightarrow> bool" where
  "HasPositionHint DE = (PositionHint DE \<noteq> None)"

definition GetPositionHint :: "DictionaryEntry \<Rightarrow> nat" where
  "GetPositionHint DE = (case PositionHint DE of Some p \<Rightarrow> p | None \<Rightarrow> 2 ^ 64 - 1)"

definition IncUseCount :: "DictionaryEntry \<Rightarrow> DictionaryEntry" where
  "IncUseCount DE = DE\<lparr>GetUseCount := GetUseCount DE + 1\<rparr>"

definition IncSuccessCount :: "DictionaryEntry \<Rightarrow> DictionaryEntry" where
  "IncSuccessCount DE = DE\<lparr>GetSuccessCount := GetSuccessCount DE + 1\<rparr>"

definition ContainsWord :: "Dictionary \<Rightarrow> Word \<Rightarrow> bool" where
  "ContainsWord D w = (w \<in> set (map GetW D))"

definition push_back :: "nat \<Rightarrow> DictionaryEntry \<Rightarrow> Dictionary \<Rightarrow> Dictionary" where
  "push_back kMax DE D = (if length D < kMax then D @ [DE] else D)"

text \<open>
  The current-dictionary-entry-sequence holds pointers to entries
  (\<^verbatim>\<open>DictionaryEntry *\<close>): a pointer is the dictionary it points into and the index
  of the entry there.
\<close>

datatype DictId = Manual | TempAuto | PersistentAuto

type_synonym DERef = "DictId \<times> nat"

subsection \<open>The dispatcher\<close>

datatype Mutator =
    EraseBytes | InsertByte | InsertRepeatedBytes | ChangeByte | ChangeBit
  | ShuffleBytes | ChangeASCIIInt | ChangeBinInt | CopyPart | CrossOver
  | AddFromManualDict | AddFromTempAutoDict | AddFromPersAutoDict
  | Custom | CustomCrossOver

record MutationDispatcher =
  Rand :: Random
  OnlyASCII :: bool
  Corpus :: "Unit list option"
  ManualDictionary :: Dictionary
  TempAutoDictionary :: Dictionary
  PersistentAutoDictionary :: Dictionary
  CurrentMutatorSequence :: "Mutator list"
  CurrentDictionaryEntrySequence :: "DERef list"
  MutateInPlaceHere :: "byte list"
  Mutators :: "Mutator list"
  DefaultMutators :: "Mutator list"

type_synonym result = "(nat \<times> byte list \<times> MutationDispatcher) option"

text \<open>
  What the engine calls and the sources at hand do not hold, taken as parameters:
  the bound of a Dictionary, the member function \<^verbatim>\<open>CrossOver\<close> (FuzzerCrossOver.cpp;
  it reads two inputs, writes the output buffer, draws from the random source and returns
  the output size) and the two optional callbacks of the host,
  \<^verbatim>\<open>EF->LLVMFuzzerCustomMutator\<close> (data, size, capacity, seed) and
  \<^verbatim>\<open>EF->LLVMFuzzerCustomCrossOver\<close> (data1, size1, data2, size2, out, capacity, seed),
  each returning the size and the buffer it wrote.
\<close>

record Externals =
  kMaxDictSize :: nat
  CrossOver_impl ::
    "byte list \<Rightarrow> nat \<Rightarrow> byte list \<Rightarrow> nat \<Rightarrow> byte list \<Rightarrow> nat \<Rightarrow> Random
       \<Rightarrow> (nat \<times> byte list \<times> Random) option"
  LLVMFuzzerCustomMutator ::
    "(byte list \<Rightarrow> nat \<Rightarrow> nat \<Rightarrow> nat \<Rightarrow> nat \<times> byte list) option"
  LLVMFuzzerCustomCrossOver ::
    "(byte list \<Rightarrow> nat \<Rightarrow> byte list \<Rightarrow> nat \<Rightarrow> byte list \<Rightarrow> nat \<Rightarrow> nat
       \<Rightarrow> nat \<times> byte list) option"

subsection \<open>Byte-level mutators (lines 94-159)\<close>

text \<open>
  \<^verbatim>\<open>std::random_shuffle(first, last, Rand)\<close> on \<open>Data[first, last)\<close>, as the standard
  library does it: for \<open>i = 1, 2, ...\<close> swap element \<open>i\<close> of the range with element
  \<open>Rand(i + 1)\<close>.
\<close>

function random_shuffle_loop :: "byte list \<Rightarrow> nat \<Rightarrow> Random \<Rightarrow> byte list \<times> Random" where
  "random_shuffle_loop xs i R =
     (if i < length xs
      then (let (j, R') = Rand_below (i + 1) R
            in random_shuffle_loop (xs[i := xs ! j, j := xs ! i]) (i + 1) R')
      else (xs, R))"
  by pat_completeness auto
termination
  by (relation "measure (\<lambda>(xs, i, R). length xs - i)") auto

declare random_shuffle_loop.simps [simp del]

definition random_shuffle :: "byte list \<Rightarrow> nat \<Rightarrow> nat \<Rightarrow> Random \<Rightarrow> (byte list \<times> Random) option" where
  "random_shuffle Data First Last R =
     (if First \<le> Last \<and> Last \<le> length Data
      then (let (ys, R') = random_shuffle_loop (take (Last - First) (drop First Data)) 1 R
            in Some (take First Data @ ys @ drop Last Data, R'))
      else None)"

definition Mutate_ShuffleBytes :: "byte list \<Rightarrow> nat \<Rightarrow> nat \<Rightarrow> MutationDispatcher \<Rightarrow> result" where
  "Mutate_ShuffleBytes Data Size MaxSize s = do {
     assert (Size \<noteq> 0);
     let (r, R1) = Rand_below (min Size 8) (Rand s);
     let ShuffleAmount = r + 1;
     let (ShuffleStart, R2) = Rand_below (Size - ShuffleAmount) R1;
     assert (ShuffleStart + ShuffleAmount \<le> Size);
     (Data', R3) \<leftarrow> random_shuffle Data ShuffleStart (ShuffleStart + ShuffleAmount) R2;
     Some (Size, Data', s\<lparr>Rand := R3\<rparr>)
   }"

definition Mutate_EraseBytes :: "byte list \<Rightarrow> nat \<Rightarrow> nat \<Rightarrow> MutationDispatcher \<Rightarrow> result" where
  "Mutate_EraseBytes Data Size MaxSize s = do {
     assert (Size \<noteq> 0);
     if Size = 1 then Some (0, Data, s)
     else do {
       let (r, R1) = Rand_below (Size div 2) (Rand s);
       let N = r + 1;
       assert (N < Size);
       let (Idx, R2) = Rand_below (Size - N + 1) R1;
       Data' \<leftarrow> memmove Data Idx Data (Idx + N) (Size - Idx - N);
       Some (Size - N, Data', s\<lparr>Rand := R2\<rparr>)
     }
   }"

definition Mutate_InsertByte :: "byte list \<Rightarrow> nat \<Rightarrow> nat \<Rightarrow> MutationDispatcher \<Rightarrow> result" where
  "Mutate_InsertByte Data Size MaxSize s =
     (if Size = MaxSize then Some (0, Data, s)
      else do {
        let (Idx, R1) = Rand_below (Size + 1) (Rand s);
        Data1 \<leftarrow> memmove Data (Idx + 1) Data Idx (Size - Idx);
        let (c, R2) = RandCh R1;
        Data2 \<leftarrow> store Data1 Idx c;
        Some (Size + 1, Data2, s\<lparr>Rand := R2\<rparr>)
      })"

definition kMinBytesToInsert :: nat where
  "kMinBytesToInsert = 3"

text \<open>The fill loop of lines 142-143: \<^verbatim>\<open>Data[Idx + i] = Byte\<close> for \<open>i < N\<close>.\<close>

fun fill_bytes :: "byte list \<Rightarrow> nat \<Rightarrow> nat \<Rightarrow> byte \<Rightarrow> byte list option" where
  "fill_bytes Data Idx 0 b = Some Data"
| "fill_bytes Data Idx (Suc n) b = do {
     Data' \<leftarrow> store Data Idx b;
     fill_bytes Data' (Idx + 1) n b
   }"

definition Mutate_InsertRepeatedBytes :: "byte list \<Rightarrow> nat \<Rightarrow> nat \<Rightarrow> MutationDispatcher \<Rightarrow> result" where
  "Mutate_InsertRepeatedBytes Data Size MaxSize s =
     (if Size + kMinBytesToInsert \<ge> MaxSize then Some (0, Data, s)
      else do {
        let MaxBytesToInsert = min (MaxSize - Size) 128;
        let (r, R1) = Rand_below (MaxBytesToInsert - kMinBytesToInsert + 1) (Rand s);
        let N = r + kMinBytesToInsert;
        assert (Size + N \<le> MaxSize \<and> N \<noteq> 0);
        let (Idx, R2) = Rand_below (Size + 1) R1;
        Data1 \<leftarrow> memmove Data (Idx + N) Data Idx (Size - Idx);
        let (b1, R3) = RandBool R2;
        let (Byte, R4) =
          (if b1 then (let (v, R') = Rand_below 256 R3 in (of_nat v, R'))
           else (let (b2, R') = RandBool R3 in (if b2 then 0 else 255, R')));
        Data2 \<leftarrow> fill_bytes Data1 Idx N Byte;
        Some (Size + N, Data2, s\<lparr>Rand := R4\<rparr>)
      })"

definition Mutate_ChangeByte :: "byte list \<Rightarrow> nat \<Rightarrow> nat \<Rightarrow> MutationDispatcher \<Rightarrow> result" where
  "Mutate_ChangeByte Data Size MaxSize s = do {
     let (Idx, R1) = Rand_below Size (Rand s);
     let (c, R2) = RandCh R1;
     Data' \<leftarrow> store Data Idx c;
     Some (Size, Data', s\<lparr>Rand := R2\<rparr>)
   }"

definition Mutate_ChangeBit :: "byte list \<Rightarrow> nat \<Rightarrow> nat \<Rightarrow> MutationDispatcher \<Rightarrow> result" where
  "Mutate_ChangeBit Data Size MaxSize s = do {
     let (Idx, R1) = Rand_below Size (Rand s);
     let (k, R2) = Rand_below 8 R1;
     x \<leftarrow> load Data Idx;
     Data' \<leftarrow> store Data Idx (x XOR push_bit k 1);
     Some (Size, Data', s\<lparr>Rand := R2\<rparr>)
   }"

subsection \<open>Construction (lines 29-62)\<close>

definition MutationDispatcher_new :: "Externals \<Rightarrow> Random \<Rightarrow> bool \<Rightarrow> MutationDispatcher" where
  "MutationDispatcher_new EF R only_ascii =
     (let Def = [EraseBytes, InsertByte, InsertRepeatedBytes, ChangeByte, ChangeBit,
                 ShuffleBytes, ChangeASCIIInt, ChangeBinInt, CopyPart, CrossOver,
                 AddFromManualDict, AddFromTempAutoDict, AddFromPersAutoDict];
          Ms = (if LLVMFuzzerCustomMutator EF \<noteq> None then [Custom] else Def)
      in \<lparr>Rand = R, OnlyASCII = only_ascii, Corpus = None,
          ManualDictionary = [], TempAutoDictionary = [], PersistentAutoDictionary = [],
          CurrentMutatorSequence = [], CurrentDictionaryEntrySequence = [],
          MutateInPlaceHere = [],
          Mutators = (if LLVMFuzzerCustomCrossOver EF \<noteq> None then Ms @ [CustomCrossOver] else Ms),
          DefaultMutators = Def\<rparr>)"

text \<open>A host that supplies no callback, with a crossover that gives up, for the examples.\<close>

definition plain_host :: Externals where
  "plain_host =
     \<lparr>kMaxDictSize = 16384,
      CrossOver_impl = (\<lambda>Data1 Size1 Data2 Size2 Out MaxOutSize R. None),
      LLVMFuzzerCustomMutator = None,
      LLVMFuzzerCustomCrossOver = None\<rparr>"

subsection \<open>Dictionary-driven mutators (lines 161-198)\<close>

text \<open>A \<^verbatim>\<open>Dictionary &\<close> argument is the name of one of the three dictionaries.\<close>

definition dict_of :: "DictId \<Rightarrow> MutationDispatcher \<Rightarrow> Dictionary" where
  "dict_of D s = (case D of Manual \<Rightarrow> ManualDictionary s
                          | TempAuto \<Rightarrow> TempAutoDictionary s
                          | PersistentAuto \<Rightarrow> PersistentAutoDictionary s)"

definition dict_update ::
    "DictId \<Rightarrow> (Dictionary \<Rightarrow> Dictionary) \<Rightarrow> MutationDispatcher \<Rightarrow> MutationDispatcher" where
  "dict_update D f s =
     (case D of Manual \<Rightarrow> s\<lparr>ManualDictionary := f (ManualDictionary s)\<rparr>
              | TempAuto \<Rightarrow> s\<lparr>TempAutoDictionary := f (TempAutoDictionary s)\<rparr>
              | PersistentAuto \<Rightarrow> s\<lparr>PersistentAutoDictionary := f (PersistentAutoDictionary s)\<rparr>)"

text \<open>Lines 195-196: \<^verbatim>\<open>DE.IncUseCount(); CurrentDictionaryEntrySequence.push_back(&DE)\<close>
  for the entry \<open>i\<close> of dictionary \<open>D\<close>.\<close>

definition use_entry :: "DictId \<Rightarrow> nat \<Rightarrow> MutationDispatcher \<Rightarrow> MutationDispatcher" where
  "use_entry D i s =
     (dict_update D (\<lambda>Dict. Dict[i := IncUseCount (Dict ! i)]) s)
       \<lparr>CurrentDictionaryEntrySequence := CurrentDictionaryEntrySequence s @ [(D, i)]\<rparr>"

definition AddWordFromDictionary ::
    "DictId \<Rightarrow> byte list \<Rightarrow> nat \<Rightarrow> nat \<Rightarrow> MutationDispatcher \<Rightarrow> result" where
  "AddWordFromDictionary D Data Size MaxSize s =
     (if dict_of D s = [] then Some (0, Data, s)
      else
        (let (i, R1) = Rand_below (length (dict_of D s)) (Rand s);
             DE = dict_of D s ! i;
             Wd = GetW DE;
             (UsePositionHint, R2) =
               (if HasPositionHint DE \<and> GetPositionHint DE + length Wd < Size
                then RandBool R1 else (False, R1));
             (ins, R3) = RandBool R2
         in if ins then
              (if Size + length Wd > MaxSize then Some (0, Data, s\<lparr>Rand := R3\<rparr>)
               else do {
                 let (Idx, R4) = (if UsePositionHint then (GetPositionHint DE, R3)
                                  else Rand_below (Size + 1) R3);
                 Data1 \<leftarrow> memmove Data (Idx + length Wd) Data Idx (Size - Idx);
                 Data2 \<leftarrow> memcpy Data1 Idx Wd 0 (length Wd);
                 Some (Size + length Wd, Data2, use_entry D i (s\<lparr>Rand := R4\<rparr>))
               })
            else
              (if length Wd > Size then Some (0, Data, s\<lparr>Rand := R3\<rparr>)
               else do {
                 let (Idx, R4) = (if UsePositionHint then (GetPositionHint DE, R3)
                                  else Rand_below (Size - length Wd) R3);
                 Data1 \<leftarrow> memcpy Data Idx Wd 0 (length Wd);
                 Some (Size, Data1, use_entry D i (s\<lparr>Rand := R4\<rparr>))
               })))"

definition Mutate_AddWordFromManualDictionary ::
    "byte list \<Rightarrow> nat \<Rightarrow> nat \<Rightarrow> MutationDispatcher \<Rightarrow> result" where
  "Mutate_AddWordFromManualDictionary Data Size MaxSize s =
     AddWordFromDictionary Manual Data Size MaxSize s"

definition Mutate_AddWordFromTemporaryAutoDictionary ::
    "byte list \<Rightarrow> nat \<Rightarrow> nat \<Rightarrow> MutationDispatcher \<Rightarrow> result" where
  "Mutate_AddWordFromTemporaryAutoDictionary Data Size MaxSize s =
     AddWordFromDictionary TempAuto Data Size MaxSize s"

definition Mutate_AddWordFromPersistentAutoDictionary ::
    "byte list \<Rightarrow> nat \<Rightarrow> nat \<Rightarrow> MutationDispatcher \<Rightarrow> result" where
  "Mutate_AddWordFromPersistentAutoDictionary Data Size MaxSize s =
     AddWordFromDictionary PersistentAuto Data Size MaxSize s"

subsection \<open>Copy and insert primitives (lines 200-247)\<close>

definition CopyPartOf ::
    "byte list \<Rightarrow> nat \<Rightarrow> byte list \<Rightarrow> nat \<Rightarrow> MutationDispatcher \<Rightarrow> result" where
  "CopyPartOf From FromSize To ToSize s = do {
     let (ToBeg, R1) = Rand_below ToSize (Rand s);
     let (r, R2) = Rand_below (ToSize - ToBeg) R1;
     let CopySize = r + 1;
     assert (ToBeg + CopySize \<le> ToSize);
     let CopySize = min CopySize FromSize;
     let (FromBeg, R3) = Rand_below (FromSize - CopySize + 1) R2;
     assert (FromBeg + CopySize \<le> FromSize);
     To' \<leftarrow> memmove To ToBeg From FromBeg CopySize;
     Some (ToSize, To', s\<lparr>Rand := R3\<rparr>)
   }"

text \<open>
  \<^verbatim>\<open>InsertPartOf\<close>. The test \<^verbatim>\<open>To == From\<close> compares pointers; the caller says in
  \<open>ToEqFrom\<close> whether both name the same buffer. When \<^verbatim>\<open>FromSize\<close> is 0,
  \<^verbatim>\<open>CopySize\<close> is 1 and the unsigned \<^verbatim>\<open>FromSize - CopySize + 1\<close> wraps to 0 in the
  source; the assertion of line 225 fails then, in the source and here.
\<close>

definition InsertPartOf ::
    "bool \<Rightarrow> byte list \<Rightarrow> nat \<Rightarrow> byte list \<Rightarrow> nat \<Rightarrow> nat \<Rightarrow> MutationDispatcher \<Rightarrow> result" where
  "InsertPartOf ToEqFrom From FromSize To ToSize MaxToSize s =
     (if ToSize \<ge> MaxToSize then Some (0, To, s)
      else do {
        let AvailableSpace = MaxToSize - ToSize;
        let MaxCopySize = min AvailableSpace FromSize;
        let (r, R1) = Rand_below MaxCopySize (Rand s);
        let CopySize = r + 1;
        let (FromBeg, R2) = Rand_below (FromSize - CopySize + 1) R1;
        assert (FromBeg + CopySize \<le> FromSize);
        let (ToInsertPos, R3) = Rand_below (ToSize + 1) R2;
        assert (ToInsertPos + CopySize \<le> MaxToSize);
        let TailSize = ToSize - ToInsertPos;
        if ToEqFrom then do {
          let Scratch = resize MaxToSize (MutateInPlaceHere s);
          Scratch' \<leftarrow> memcpy Scratch 0 From FromBeg CopySize;
          To1 \<leftarrow> memmove To (ToInsertPos + CopySize) To ToInsertPos TailSize;
          To2 \<leftarrow> memmove To1 ToInsertPos Scratch' 0 CopySize;
          Some (ToSize + CopySize, To2, s\<lparr>Rand := R3, MutateInPlaceHere := Scratch'\<rparr>)
        } else do {
          To1 \<leftarrow> memmove To (ToInsertPos + CopySize) To ToInsertPos TailSize;
          To2 \<leftarrow> memmove To1 ToInsertPos From FromBeg CopySize;
          Some (ToSize + CopySize, To2, s\<lparr>Rand := R3\<rparr>)
        }
      })"

definition Mutate_CopyPart :: "byte list \<Rightarrow> nat \<Rightarrow> nat \<Rightarrow> MutationDispatcher \<Rightarrow> result" where
  "Mutate_CopyPart Data Size MaxSize s =
     (let (b, R1) = RandBool (Rand s)
      in if b then CopyPartOf Data Size Data Size (s\<lparr>Rand := R1\<rparr>)
         else InsertPartOf True Data Size Data Size MaxSize (s\<lparr>Rand := R1\<rparr>))"

subsection \<open>Integer-aware mutators (lines 249-317)\<close>

definition isdigit :: "byte \<Rightarrow> bool" where
  "isdigit c = (0x30 \<le> c \<and> c \<le> 0x39)"

function skip_nondigits :: "byte list \<Rightarrow> nat \<Rightarrow> nat \<Rightarrow> nat option" where
  "skip_nondigits Data Size B =
     (if B < Size
      then do { c \<leftarrow> load Data B;
                if \<not> isdigit c then skip_nondigits Data Size (B + 1) else Some B }
      else Some B)"
  by pat_completeness auto
termination
  by (relation "measure (\<lambda>(Data, Size, B). Size - B)") auto

declare skip_nondigits.simps [simp del]

function skip_digits :: "byte list \<Rightarrow> nat \<Rightarrow> nat \<Rightarrow> nat option" where
  "skip_digits Data Size E =
     (if E < Size
      then do { c \<leftarrow> load Data E;
                if isdigit c then skip_digits Data Size (E + 1) else Some E }
      else Some E)"
  by pat_completeness auto
termination
  by (relation "measure (\<lambda>(Data, Size, E). Size - E)") auto

declare skip_digits.simps [simp del]

text \<open>Lines 259-261, on the digits \<open>Data[B + 1, E)\<close> that the scan has read.\<close>

definition parse_digits :: "byte list \<Rightarrow> nat \<Rightarrow> nat \<Rightarrow> 64 word" where
  "parse_digits Data B E =
     foldl (\<lambda>Val c. Val * 10 + ucast c - 0x30) (ucast (Data ! B) - 0x30)
       (take (E - (B + 1)) (drop (B + 1) Data))"

function write_digits :: "byte list \<Rightarrow> nat \<Rightarrow> nat \<Rightarrow> nat \<Rightarrow> 64 word \<Rightarrow> byte list option" where
  "write_digits Data B E i Val =
     (if i < E
      then do {
        let Idx = E + B - i - 1;
        assert (Idx \<ge> B \<and> Idx < E);
        Data' \<leftarrow> store Data Idx (ucast (Val mod 10) + 0x30);
        write_digits Data' B E (i + 1) (Val div 10)
      }
      else Some Data)"
  by pat_completeness auto
termination
  by (relation "measure (\<lambda>(Data, B, E, i, Val). E - i)") auto

declare write_digits.simps [simp del]

definition Mutate_ChangeASCIIInteger ::
    "byte list \<Rightarrow> nat \<Rightarrow> nat \<Rightarrow> MutationDispatcher \<Rightarrow> result" where
  "Mutate_ChangeASCIIInteger Data Size MaxSize s = do {
     let (B0, R1) = Rand_below Size (Rand s);
     B \<leftarrow> skip_nondigits Data Size B0;
     if B = Size then Some (0, Data, s\<lparr>Rand := R1\<rparr>)
     else do {
       E \<leftarrow> skip_digits Data Size B;
       assert (B < E);
       let Val = parse_digits Data B E;
       let (k, R2) = Rand_below 5 R1;
       let (Val, R3) =
         (if k = 0 then (Val + 1, R2)
          else if k = 1 then (Val - 1, R2)
          else if k = 2 then (Val div 2, R2)
          else if k = 3 then (Val * 2, R2)
          else (let (v, R') = Rand_below (unat (Val * Val)) R2 in (of_nat v, R')));
       Data' \<leftarrow> write_digits Data B E B Val;
       Some (Size, Data', s\<lparr>Rand := R3\<rparr>)
     }
   }"

text \<open>
  \<^verbatim>\<open>ChangeBinaryInteger<T>\<close> for an unsigned \<open>T\<close> of \<open>LENGTH('a)\<close> bits. The two
  \<^verbatim>\<open>memcpy\<close> read and write the integer in the byte order of the machine, taken to be
  little-endian here.
\<close>

definition bytes_of :: "'a::len word \<Rightarrow> byte list" where
  "bytes_of x = map (\<lambda>k. ucast (drop_bit (8 * k) x)) [0..<LENGTH('a) div 8]"

definition int_of_bytes :: "byte list \<Rightarrow> 'a::len word" where
  "int_of_bytes bs = foldr (\<lambda>b acc. ucast b OR push_bit 8 acc) bs 0"

definition Bswap :: "'a::len word \<Rightarrow> 'a word" where
  "Bswap x = int_of_bytes (rev (bytes_of x))"

definition ChangeBinaryInteger ::
    "'a::len itself \<Rightarrow> byte list \<Rightarrow> nat \<Rightarrow> Random \<Rightarrow> (nat \<times> byte list \<times> Random) option" where
  "ChangeBinaryInteger T Data Size R =
     (let sizeof_T = LENGTH('a) div 8 in
      if Size < sizeof_T then Some (0, Data, R)
      else do {
        let (Off, R1) = Rand_below (Size - sizeof_T + 1) R;
        assert (Off + sizeof_T \<le> Size);
        bs \<leftarrow> (if Off + sizeof_T \<le> length Data
                then Some (take sizeof_T (drop Off Data)) else None);
        let Val = (int_of_bytes bs :: 'a word);
        let (a, R2) = Rand_below 21 R1;
        let Add = (of_nat a - 10 :: 'a word);
        let (b, R3) = RandBool R2;
        let Val = (if b then Bswap (Bswap Val + Add) else Val + Add);
        let (neg, R4) = (if Add = 0 then (True, R3) else RandBool R3);
        let Val = (if neg then - Val else Val);
        Data' \<leftarrow> memcpy Data Off (bytes_of Val) 0 sizeof_T;
        Some (Size, Data', R4)
      })"

definition Mutate_ChangeBinaryInteger ::
    "byte list \<Rightarrow> nat \<Rightarrow> nat \<Rightarrow> MutationDispatcher \<Rightarrow> result" where
  "Mutate_ChangeBinaryInteger Data Size MaxSize s =
     (let (k, R1) = Rand_below 4 (Rand s)
      in do {
        (n, Data', R2) \<leftarrow>
          (if k = 3 then ChangeBinaryInteger TYPE(64) Data Size R1
           else if k = 2 then ChangeBinaryInteger TYPE(32) Data Size R1
           else if k = 1 then ChangeBinaryInteger TYPE(16) Data Size R1
           else ChangeBinaryInteger TYPE(8) Data Size R1);
        Some (n, Data', s\<lparr>Rand := R2\<rparr>)
      })"

subsection \<open>Crossover and the callbacks of the host (lines 70-92, 319-346)\<close>

text \<open>A callee that was handed a buffer gives back a buffer of the same capacity,
  or it has written outside of it.\<close>

definition same_capacity :: "byte list \<Rightarrow> byte list \<Rightarrow> unit option" where
  "same_capacity Out Buf = (if length Out = length Buf then Some () else None)"

definition Mutate_Custom ::
    "Externals \<Rightarrow> byte list \<Rightarrow> nat \<Rightarrow> nat \<Rightarrow> MutationDispatcher \<Rightarrow> result" where
  "Mutate_Custom EF Data Size MaxSize s =
     (case LLVMFuzzerCustomMutator EF of
        None \<Rightarrow> None
      | Some f \<Rightarrow> do {
          let (seed, R1) = Rand_raw (Rand s);
          let (NewSize, Data') = f Data Size MaxSize seed;
          same_capacity Data' Data;
          Some (NewSize, Data', s\<lparr>Rand := R1\<rparr>)
        })"

definition Mutate_CustomCrossOver ::
    "Externals \<Rightarrow> byte list \<Rightarrow> nat \<Rightarrow> nat \<Rightarrow> MutationDispatcher \<Rightarrow> result" where
  "Mutate_CustomCrossOver EF Data Size MaxSize s =
     (case Corpus s of
        None \<Rightarrow> Some (0, Data, s)
      | Some C \<Rightarrow>
          if length C < 2 \<or> Size = 0 then Some (0, Data, s)
          else
            (let (Idx, R1) = Rand_below (length C) (Rand s);
                 Other = C ! Idx
             in if Other = [] then Some (0, Data, s\<lparr>Rand := R1\<rparr>)
                else
                  (case LLVMFuzzerCustomCrossOver EF of
                     None \<Rightarrow> None
                   | Some f \<Rightarrow> do {
                       let U = resize MaxSize (MutateInPlaceHere s);
                       let (seed, R2) = Rand_raw R1;
                       let (NewSize, U') = f Data Size Other (length Other) U (length U) seed;
                       same_capacity U' U;
                       let s' = s\<lparr>Rand := R2, MutateInPlaceHere := U'\<rparr>;
                       if NewSize = 0 then Some (0, Data, s')
                       else do {
                         assert (NewSize \<le> MaxSize);
                         Data' \<leftarrow> memcpy Data 0 U' 0 NewSize;
                         Some (NewSize, Data', s')
                       }
                     })))"

text \<open>
  \<^verbatim>\<open>Mutate_CrossOver\<close>. \<open>U\<close> is the scratch vector \<^verbatim>\<open>MutateInPlaceHere\<close> after
  \<^verbatim>\<open>resize(MaxSize)\<close>; \<^verbatim>\<open>InsertPartOf\<close> and \<^verbatim>\<open>CopyPartOf\<close> get \<^verbatim>\<open>U.data()\<close> and
  \<^verbatim>\<open>U.size()\<close> as their destination, so what they write is written to the scratch
  vector. \<open>CrossOver_switch\<close> is the \<^verbatim>\<open>switch\<close> of lines 328-341 on the value
  \<open>k\<close> drawn; its case 1 falls through to case 2 when \<^verbatim>\<open>InsertPartOf\<close> returns 0.
\<close>

definition CrossOver_switch ::
    "Externals \<Rightarrow> nat \<Rightarrow> byte list \<Rightarrow> nat \<Rightarrow> Unit \<Rightarrow> byte list \<Rightarrow> nat
       \<Rightarrow> MutationDispatcher \<Rightarrow> result" where
  "CrossOver_switch EF k Data Size Other U MaxSize s =
     (if k = 0 then do {
        (n, Out, R3) \<leftarrow>
          CrossOver_impl EF Data Size Other (length Other) U (length U) (Rand s);
        same_capacity Out U;
        Some (n, Out, s\<lparr>Rand := R3\<rparr>)
      }
      else if k = 1 then do {
        (n, U1, s') \<leftarrow> InsertPartOf False Other (length Other) U (length U) MaxSize s;
        if n \<noteq> 0 then Some (n, U1, s')
        else CopyPartOf Other (length Other) U1 (length U1) s'
      }
      else CopyPartOf Other (length Other) U (length U) s)"

definition Mutate_CrossOver ::
    "Externals \<Rightarrow> byte list \<Rightarrow> nat \<Rightarrow> nat \<Rightarrow> MutationDispatcher \<Rightarrow> result" where
  "Mutate_CrossOver EF Data Size MaxSize s =
     (case Corpus s of
        None \<Rightarrow> Some (0, Data, s)
      | Some C \<Rightarrow>
          if length C < 2 \<or> Size = 0 then Some (0, Data, s)
          else
            (let (Idx, R1) = Rand_below (length C) (Rand s);
                 Other = C ! Idx
             in if Other = [] then Some (0, Data, s\<lparr>Rand := R1\<rparr>)
                else do {
                  let U = resize MaxSize (MutateInPlaceHere s);
                  let (k, R2) = Rand_below 3 R1;
                  (NewSize, U', s2) \<leftarrow>
                    CrossOver_switch EF k Data Size Other U MaxSize
                      (s\<lparr>Rand := R2, MutateInPlaceHere := U\<rparr>);
                  assert (NewSize > 0);
                  assert (NewSize \<le> MaxSize);
                  Data' \<leftarrow> memcpy Data 0 U' 0 NewSize;
                  Some (NewSize, Data', s2\<lparr>MutateInPlaceHere := U'\<rparr>)
                }))"

subsection \<open>Sequence bookkeeping (lines 348-377)\<close>

definition StartMutationSequence :: "MutationDispatcher \<Rightarrow> MutationDispatcher" where
  "StartMutationSequence s =
     s\<lparr>CurrentMutatorSequence := [], CurrentDictionaryEntrySequence := []\<rparr>"

text \<open>
  The body of the loop of \<^verbatim>\<open>RecordSuccessfulMutationSequence\<close> (lines 356-360) for
  one pointer \<open>(D, i)\<close> of the sequence, and the loop over the sequence. A pointer whose
  entry is no longer in its dictionary cannot be followed.
\<close>

definition RecordBody :: "nat \<Rightarrow> DERef \<Rightarrow> MutationDispatcher \<Rightarrow> MutationDispatcher option" where
  "RecordBody kMax p s =
     (case p of (D, i) \<Rightarrow>
        if i < length (dict_of D s)
        then
          (let s1 = dict_update D (\<lambda>Dict. Dict[i := IncSuccessCount (Dict ! i)]) s;
               w = GetW (dict_of D s1 ! i)
           in if \<not> ContainsWord (PersistentAutoDictionary s1) w
              then Some (s1\<lparr>PersistentAutoDictionary :=
                              push_back kMax (DictionaryEntry_init w 1) (PersistentAutoDictionary s1)\<rparr>)
              else Some s1)
        else None)"

fun RecordLoop :: "nat \<Rightarrow> DERef list \<Rightarrow> MutationDispatcher \<Rightarrow> MutationDispatcher option" where
  "RecordLoop kMax [] s = Some s"
| "RecordLoop kMax (p # rest) s = do { s' \<leftarrow> RecordBody kMax p s; RecordLoop kMax rest s' }"

definition RecordSuccessfulMutationSequence ::
    "Externals \<Rightarrow> MutationDispatcher \<Rightarrow> MutationDispatcher option" where
  "RecordSuccessfulMutationSequence EF s =
     RecordLoop (kMaxDictSize EF) (CurrentDictionaryEntrySequence s) s"

text \<open>\<^verbatim>\<open>PrintRecommendedDictionary\<close>: the vector \<open>V\<close> of the entries that are printed.\<close>

definition PrintRecommendedDictionary :: "MutationDispatcher \<Rightarrow> DictionaryEntry list" where
  "PrintRecommendedDictionary s =
     filter (\<lambda>DE. \<not> ContainsWord (ManualDictionary s) (GetW DE)) (PersistentAutoDictionary s)"

subsection \<open>The dispatch loop (lines 392-429)\<close>

text \<open>
  Modelled from the spec: \<^verbatim>\<open>ToASCII\<close> (FuzzerUtil.cpp) is not in FuzzerMutate.cpp.
  By the spec (4.2, 6) it folds every byte of \<open>Data[0, Size)\<close> into the printable ASCII
  range; here a byte keeps its low seven bits when they are printable and becomes a
  space otherwise.
\<close>

definition printable :: "byte \<Rightarrow> bool" where
  "printable c = (0x20 \<le> c \<and> c \<le> 0x7E)"

definition ToASCII_byte :: "byte \<Rightarrow> byte" where
  "ToASCII_byte c = (let x = c AND 127 in if printable x then x else 0x20)"

definition ToASCII :: "byte list \<Rightarrow> nat \<Rightarrow> byte list option" where
  "ToASCII Data Size =
     (if Size \<le> length Data
      then Some (map ToASCII_byte (take Size Data) @ drop Size Data)
      else None)"

definition Fn ::
    "Externals \<Rightarrow> Mutator \<Rightarrow> byte list \<Rightarrow> nat \<Rightarrow> nat \<Rightarrow> MutationDispatcher \<Rightarrow> result" where
  "Fn EF M =
     (case M of
        EraseBytes \<Rightarrow> Mutate_EraseBytes
      | InsertByte \<Rightarrow> Mutate_InsertByte
      | InsertRepeatedBytes \<Rightarrow> Mutate_InsertRepeatedBytes
      | ChangeByte \<Rightarrow> Mutate_ChangeByte
      | ChangeBit \<Rightarrow> Mutate_ChangeBit
      | ShuffleBytes \<Rightarrow> Mutate_ShuffleBytes
      | ChangeASCIIInt \<Rightarrow> Mutate_ChangeASCIIInteger
      | ChangeBinInt \<Rightarrow> Mutate_ChangeBinaryInteger
      | CopyPart \<Rightarrow> Mutate_CopyPart
      | CrossOver \<Rightarrow> Mutate_CrossOver EF
      | AddFromManualDict \<Rightarrow> Mutate_AddWordFromManualDictionary
      | AddFromTempAutoDict \<Rightarrow> Mutate_AddWordFromTemporaryAutoDictionary
      | AddFromPersAutoDict \<Rightarrow> Mutate_AddWordFromPersistentAutoDictionary
      | Custom \<Rightarrow> Mutate_Custom EF
      | CustomCrossOver \<Rightarrow> Mutate_CustomCrossOver EF)"

text \<open>The loop of lines 408-409: \<^verbatim>\<open>Data[i] = RandCh(Rand)\<close> for \<open>n\<close> indices from \<open>i\<close>.\<close>

fun fill_RandCh :: "byte list \<Rightarrow> nat \<Rightarrow> nat \<Rightarrow> Random \<Rightarrow> (byte list \<times> Random) option" where
  "fill_RandCh Data i 0 R = Some (Data, R)"
| "fill_RandCh Data i (Suc n) R =
     (let (c, R') = RandCh R
      in do { Data' \<leftarrow> store Data i c; fill_RandCh Data' (i + 1) n R' })"

text \<open>One pass of the body of the loop of lines 418-427: the mutator drawn, and what it
  returned.\<close>

definition attempt ::
    "Externals \<Rightarrow> byte list \<Rightarrow> nat \<Rightarrow> nat \<Rightarrow> Mutator list \<Rightarrow> MutationDispatcher
       \<Rightarrow> (Mutator \<times> nat \<times> byte list \<times> MutationDispatcher) option" where
  "attempt EF Data Size MaxSize Ms s = do {
     let (i, R1) = Rand_below (length Ms) (Rand s);
     M \<leftarrow> (if i < length Ms then Some (Ms ! i) else None);
     (NewSize, Data', s') \<leftarrow> Fn EF M Data Size MaxSize (s\<lparr>Rand := R1\<rparr>);
     Some (M, NewSize, Data', s')
   }"

function MutateLoop ::
    "Externals \<Rightarrow> nat \<Rightarrow> byte list \<Rightarrow> nat \<Rightarrow> nat \<Rightarrow> Mutator list \<Rightarrow> MutationDispatcher \<Rightarrow> result" where
  "MutateLoop EF Iter Data Size MaxSize Ms s =
     (if Iter < 10
      then (case attempt EF Data Size MaxSize Ms s of
              None \<Rightarrow> None
            | Some (M, NewSize, Data', s') \<Rightarrow>
                if NewSize \<noteq> 0
                then do {
                  Data'' \<leftarrow> (if OnlyASCII s' then ToASCII Data' NewSize else Some Data');
                  Some (NewSize, Data'',
                        s'\<lparr>CurrentMutatorSequence := CurrentMutatorSequence s' @ [M]\<rparr>)
                }
                else MutateLoop EF (Iter + 1) Data' Size MaxSize Ms s')
      else Some (Size, Data, s))"
  by pat_completeness auto
termination
  by (relation "measure (\<lambda>(EF, Iter, Data, Size, MaxSize, Ms, s). 10 - Iter)") auto

declare MutateLoop.simps [simp del]

definition MutateImpl ::
    "Externals \<Rightarrow> byte list \<Rightarrow> nat \<Rightarrow> nat \<Rightarrow> Mutator list \<Rightarrow> MutationDispatcher \<Rightarrow> result" where
  "MutateImpl EF Data Size MaxSize Ms s = do {
     assert (MaxSize > 0);
     assert (Size \<le> MaxSize);
     if Size = 0 then do {
       (Data1, R1) \<leftarrow> fill_RandCh Data 0 MaxSize (Rand s);
       Data2 \<leftarrow> (if OnlyASCII s then ToASCII Data1 MaxSize else Some Data1);
       Some (MaxSize, Data2, s\<lparr>Rand := R1\<rparr>)
     }
     else do {
       assert (Size > 0);
       MutateLoop EF 0 Data Size MaxSize Ms s
     }
   }"

definition Mutate ::
    "Externals \<Rightarrow> byte list \<Rightarrow> nat \<Rightarrow> nat \<Rightarrow> MutationDispatcher \<Rightarrow> result" where
  "Mutate EF Data Size MaxSize s = MutateImpl EF Data Size MaxSize (Mutators s) s"

definition DefaultMutate ::
    "Externals \<Rightarrow> byte list \<Rightarrow> nat \<Rightarrow> nat \<Rightarrow> MutationDispatcher \<Rightarrow> result" where
  "DefaultMutate EF Data Size MaxSize s = MutateImpl EF Data Size MaxSize (DefaultMutators s) s"

subsection \<open>Dictionary management (lines 431-444)\<close>

definition AddWordToManualDictionary ::
    "Externals \<Rightarrow> Word \<Rightarrow> MutationDispatcher \<Rightarrow> MutationDispatcher" where
  "AddWordToManualDictionary EF w s =
     s\<lparr>ManualDictionary :=
         push_back (kMaxDictSize EF) (DictionaryEntry_init w (2 ^ 64 - 1)) (ManualDictionary s)\<rparr>"

definition kMaxAutoDictSize :: nat where
  "kMaxAutoDictSize = push_bit 14 1"

definition AddWordToAutoDictionary ::
    "Externals \<Rightarrow> DictionaryEntry \<Rightarrow> MutationDispatcher \<Rightarrow> MutationDispatcher" where
  "AddWordToAutoDictionary EF DE s =
     (if length (TempAutoDictionary s) \<ge> kMaxAutoDictSize then s
      else s\<lparr>TempAutoDictionary := push_back (kMaxDictSize EF) DE (TempAutoDictionary s)\<rparr>)"

definition ClearAutoDictionary :: "MutationDispatcher \<Rightarrow> MutationDispatcher" where
  "ClearAutoDictionary s = s\<lparr>TempAutoDictionary := []\<rparr>"

subsection \<open>Runs of the dispatcher\<close>

text \<open>
  The calls a host can make on a dispatcher: it installs the corpus that line 321
  tests, draws from the random source it shares with the dispatcher, and calls the member
  functions above. A run applies a list of calls in order and stops where a call does not
  return. The states that matter are those a run reaches from a new dispatcher.
\<close>

datatype Call =
    CallSetCorpus "Unit list"
  | CallRandom
  | CallMutate "byte list" nat nat
  | CallDefaultMutate "byte list" nat nat
  | CallMutator Mutator "byte list" nat nat
  | CallStartMutationSequence
  | CallRecordSuccessfulMutationSequence
  | CallAddWordToManualDictionary Word
  | CallAddWordToAutoDictionary DictionaryEntry
  | CallClearAutoDictionary

definition after :: "result \<Rightarrow> MutationDispatcher option" where
  "after r = (case r of None \<Rightarrow> None | Some (n, Data', s') \<Rightarrow> Some s')"

fun call :: "Externals \<Rightarrow> Call \<Rightarrow> MutationDispatcher \<Rightarrow> MutationDispatcher option" where
  "call EF (CallSetCorpus C) s = Some (s\<lparr>Corpus := Some C\<rparr>)"
| "call EF CallRandom s = Some (s\<lparr>Rand := snd (Rand_raw (Rand s))\<rparr>)"
| "call EF (CallMutate Data Size MaxSize) s = after (Mutate EF Data Size MaxSize s)"
| "call EF (CallDefaultMutate Data Size MaxSize) s = after (DefaultMutate EF Data Size MaxSize s)"
| "call EF (CallMutator M Data Size MaxSize) s = after (Fn EF M Data Size MaxSize s)"
| "call EF CallStartMutationSequence s = Some (StartMutationSequence s)"
| "call EF CallRecordSuccessfulMutationSequence s = RecordSuccessfulMutationSequence EF s"
| "call EF (CallAddWordToManualDictionary w) s = Some (AddWordToManualDictionary EF w s)"
| "call EF (CallAddWordToAutoDictionary DE) s = Some (AddWordToAutoDictionary EF DE s)"
| "call EF CallClearAutoDictionary s = Some (ClearAutoDictionary s)"

fun run :: "Externals \<Rightarrow> Call list \<Rightarrow> MutationDispatcher \<Rightarrow> MutationDispatcher option" where
  "run EF [] s = Some s"
| "run EF (c # cs) s = (case call EF c s of None \<Rightarrow> None | Some s' \<Rightarrow> run EF cs s')"

text \<open>The state of buffer and dispatcher after \<open>k\<close> passes of the dispatch loop in which
  every mutator drawn returned 0.\<close>

fun failed_attempts ::
    "Externals \<Rightarrow> nat \<Rightarrow> byte list \<Rightarrow> nat \<Rightarrow> nat \<Rightarrow> Mutator list \<Rightarrow> MutationDispatcher
       \<Rightarrow> (byte list \<times> MutationDispatcher) option" where
  "failed_attempts EF 0 Data Size MaxSize Ms s = Some (Data, s)"
| "failed_attempts EF (Suc k) Data Size MaxSize Ms s =
     (case attempt EF Data Size MaxSize Ms s of
        None \<Rightarrow> None
      | Some (M, NewSize, Data', s') \<Rightarrow>
          if NewSize = 0 then failed_attempts EF k Data' Size MaxSize Ms s' else None)"

text \<open>The bytes that \<open>n\<close> successive calls of \<^verbatim>\<open>RandCh\<close> return.\<close>

fun RandCh_list :: "nat \<Rightarrow> Random \<Rightarrow> byte list" where
  "RandCh_list 0 R = []"
| "RandCh_list (Suc n) R = (let (c, R') = RandCh R in c # RandCh_list n R')"

text \<open>A pointer of the entry sequence can be followed when its entry is in its dictionary.\<close>

definition valid_ref :: "MutationDispatcher \<Rightarrow> DERef \<Rightarrow> bool" where
  "valid_ref s p = (snd p < length (dict_of (fst p) s))"

definition entry :: "MutationDispatcher \<Rightarrow> DERef \<Rightarrow> DictionaryEntry" where
  "entry s p = dict_of (fst p) s ! snd p"

definition words :: "Dictionary \<Rightarrow> Word list" where
  "words D = map GetW D"

subsection \<open>Notions for the statements and proofs\<close>

text \<open>The dispatcher \<open>s'\<close> holds the same words, in the same order, in each of its three
  dictionaries as \<open>s\<close>.\<close>

definition dict_frame :: "MutationDispatcher \<Rightarrow> MutationDispatcher \<Rightarrow> bool" where
  "dict_frame s s' =
     (words (ManualDictionary s') = words (ManualDictionary s) \<and>
      words (TempAutoDictionary s') = words (TempAutoDictionary s) \<and>
      words (PersistentAutoDictionary s') = words (PersistentAutoDictionary s))"

text \<open>\<open>post r P\<close>: if the call returns, \<open>P\<close> holds of what it returns.\<close>

definition post:: "'a option \<Rightarrow> ('a \<Rightarrow> bool) \<Rightarrow> bool" where
  "post r P = (case r of None \<Rightarrow> True | Some x \<Rightarrow> P x)"

text \<open>A run for the examples: two entries \<open>A\<close> and \<open>B\<close> are put into the temporary
  dictionary, and three calls of \<^verbatim>\<open>Mutate\<close> draw the mutator of that dictionary with the
  entries \<open>A\<close>, \<open>B\<close>, \<open>A\<close>.\<close>

definition ABA_start :: MutationDispatcher where
  "ABA_start = MutationDispatcher_new plain_host
     (11 ## 0 ## 0 ## 0 ## 11 ## 1 ## 0 ## 0 ## 11 ## 0 ## 0 ## 0 ## sconst 0) False"

definition ABA_calls :: "Call list" where
  "ABA_calls =
     [CallAddWordToAutoDictionary (DictionaryEntry_init [65] 0),
      CallAddWordToAutoDictionary (DictionaryEntry_init [66] 0),
      CallMutate [1, 2] 2 2, CallMutate [1, 2] 2 2, CallMutate [1, 2] 2 2]"

section \<open>Properties\<close>

subsection \<open>Memory and random draws\<close>

lemma memmove_length: "memmove To d From f n = Some To' \<Longrightarrow> length To' = length To"
  by (auto simp: memmove_def split: if_splits)

lemma Rand_below_less: "Rand_below n R = (x, R') \<Longrightarrow> 0 < n \<Longrightarrow> x < n"
  by (auto simp: Rand_below_def split: if_splits)

lemma Rand_below_le: "Rand_below (n + 1) R = (x, R') \<Longrightarrow> x \<le> n"
  by (auto simp: Rand_below_def less_Suc_eq_le[symmetric] simp del: less_Suc_eq_le
      split: if_splits)

subsection \<open>EraseBytes\<close>

lemma erase_take:
  assumes "Idx + N \<le> Size" "Size \<le> length Data"
  shows "take (Size - N) (take Idx Data @ take (Size - Idx - N) (drop (Idx + N) Data) @ rest)
         = take Idx Data @ drop (Idx + N) (take Size Data)"
proof -
  have a: "length (take Idx Data) = Idx" using assms by simp
  have b: "length (take (Size - Idx - N) (drop (Idx + N) Data)) = Size - Idx - N"
    using assms by simp
  have c: "drop (Idx + N) (take Size Data) = take (Size - Idx - N) (drop (Idx + N) Data)"
    by (simp add: drop_take)
  have "take (Size - N) ((take Idx Data @ take (Size - Idx - N) (drop (Idx + N) Data)) @ rest)
        = take Idx Data @ take (Size - Idx - N) (drop (Idx + N) Data)"
    using a b assms by (subst take_append) (simp del: length_take length_drop take_append add: a b)
  then show ?thesis by (simp add: c)
qed

text \<open>
  C7. On a buffer of size 1, \<^verbatim>\<open>Mutate_EraseBytes\<close> returns 0 and leaves buffer and
  dispatcher as they were. On a buffer of size at least 2 (that lies within its
  allocation) it returns: there are a run length \<open>N\<close> with \<open>1 \<le> N \<le> Size div 2\<close> and
  a start \<open>Idx\<close> with \<open>Idx + N \<le> Size\<close> such that the result is \<open>Size - N \<ge> 1\<close> and
  the first \<open>Size - N\<close> bytes of the buffer are the old content without the bytes
  \<open>[Idx, Idx + N)\<close>, the tail shifted left.
\<close>

theorem Mutate_EraseBytes_spec:
  "Mutate_EraseBytes Data 1 MaxSize s = Some (0, Data, s) \<and>
   (2 \<le> Size \<and> Size \<le> length Data \<longrightarrow>
     (\<exists>N Idx Data' R'.
        Mutate_EraseBytes Data Size MaxSize s = Some (Size - N, Data', s\<lparr>Rand := R'\<rparr>) \<and>
        1 \<le> N \<and> N \<le> Size div 2 \<and> Idx + N \<le> Size \<and> 1 \<le> Size - N \<and>
        length Data' = length Data \<and>
        take (Size - N) Data' = take Idx Data @ drop (Idx + N) (take Size Data)))"
proof (intro conjI impI)
  show "Mutate_EraseBytes Data 1 MaxSize s = Some (0, Data, s)"
    by (simp add: Mutate_EraseBytes_def assert_def)
next
  assume h: "2 \<le> Size \<and> Size \<le> length Data"
  obtain r R1 where r: "Rand_below (Size div 2) (Rand s) = (r, R1)" by fastforce
  define N where "N = r + 1"
  obtain Idx R2 where i: "Rand_below (Size - N + 1) R1 = (Idx, R2)" by fastforce
  define Data' where "Data' = take Idx Data @ take (Size - Idx - N) (drop (Idx + N) Data)
                                @ drop (Idx + (Size - Idx - N)) Data"
  have d: "0 < Size div 2" using h by auto
  have N1: "1 \<le> N" by (simp add: N_def)
  have "r < Size div 2" using Rand_below_less[OF r d] .
  then have N2: "N \<le> Size div 2" by (simp add: N_def)
  then have N3: "N < Size" using h by linarith
  have "Idx \<le> Size - N" using Rand_below_le[OF i] .
  then have I: "Idx + N \<le> Size" using N3 by linarith
  have mm: "memmove Data Idx Data (Idx + N) (Size - Idx - N) = Some Data'"
    using h I by (auto simp: memmove_def Data'_def)
  have run: "Mutate_EraseBytes Data Size MaxSize s = Some (Size - N, Data', s\<lparr>Rand := R2\<rparr>)"
    using h N3 r i[unfolded N_def] mm[unfolded N_def]
    by (simp add: Mutate_EraseBytes_def assert_def N_def)
  have len: "length Data' = length Data" using memmove_length[OF mm] .
  have tk: "take (Size - N) Data' = take Idx Data @ drop (Idx + N) (take Size Data)"
    unfolding Data'_def using h I by (rule_tac erase_take) auto
  show "\<exists>N Idx Data' R'.
        Mutate_EraseBytes Data Size MaxSize s = Some (Size - N, Data', s\<lparr>Rand := R'\<rparr>) \<and>
        1 \<le> N \<and> N \<le> Size div 2 \<and> Idx + N \<le> Size \<and> 1 \<le> Size - N \<and>
        length Data' = length Data \<and>
        take (Size - N) Data' = take Idx Data @ drop (Idx + N) (take Size Data)"
    using run N1 N2 N3 I len tk
    by (intro exI[of _ N] exI[of _ Idx] exI[of _ Data'] exI[of _ R2]) auto
qed

theorem Mutate_EraseBytes_spec_witness:
  "(2::nat) \<le> 4 \<and> 4 \<le> length [1, 2, 3, 4 :: byte] \<and>
   (\<exists>N Idx Data' R'.
      Mutate_EraseBytes [1, 2, 3, 4] 4 4 (MutationDispatcher_new plain_host (sconst 0) False)
        = Some (4 - N, Data', (MutationDispatcher_new plain_host (sconst 0) False)\<lparr>Rand := R'\<rparr>) \<and>
      1 \<le> N \<and> N \<le> 4 div 2 \<and> Idx + N \<le> 4 \<and> 1 \<le> 4 - N \<and>
      length Data' = length [1, 2, 3, 4 :: byte] \<and>
      take (4 - N) Data' = take Idx [1, 2, 3, 4] @ drop (Idx + N) (take 4 [1, 2, 3, 4]))"
  using Mutate_EraseBytes_spec
    [of "[1, 2, 3, 4]" 4 "MutationDispatcher_new plain_host (sconst 0) False" 4]
  by simp

subsection \<open>Results of the single mutators\<close>

lemma fst_Rand_below_less: "0 < n \<Longrightarrow> fst (Rand_below n R) < n"
  by (simp add: Rand_below_def)

lemma fst_Rand_below_Suc: "fst (Rand_below (Suc n) R) \<le> n"
  using fst_Rand_below_less[of "Suc n" R] by simp

lemma fst_Rand_below_0 [simp]: "fst (Rand_below 0 R) = 0"
  by (simp add: Rand_below_def)

lemma assert_eq_Some: "(assert b = Some u) = b"
  by (simp add: assert_def)

lemma same_capacity_eq_Some: "(same_capacity a b = Some u) = (length a = length b)"
  by (simp add: same_capacity_def)


lemmas unf = Let_def split_beta bind_eq_Some_conv assert_eq_Some same_capacity_eq_Some

lemma Mutate_EraseBytes_res:
  "Mutate_EraseBytes Data Size MaxSize s = Some (n, Data', s') \<Longrightarrow> Size \<le> MaxSize \<Longrightarrow>
   n \<le> MaxSize \<and> (n = 0 \<longrightarrow> Data' = Data \<and> s' = s)"
  by (auto simp: Mutate_EraseBytes_def unf split: if_splits)

lemma Mutate_InsertByte_res:
  "Mutate_InsertByte Data Size MaxSize s = Some (n, Data', s') \<Longrightarrow> Size \<le> MaxSize \<Longrightarrow>
   n \<le> MaxSize \<and> (n = 0 \<longrightarrow> Data' = Data \<and> s' = s)"
  by (auto simp: Mutate_InsertByte_def unf split: if_splits)

lemma Mutate_InsertRepeatedBytes_res:
  "Mutate_InsertRepeatedBytes Data Size MaxSize s = Some (n, Data', s') \<Longrightarrow> Size \<le> MaxSize \<Longrightarrow>
   n \<le> MaxSize \<and> (n = 0 \<longrightarrow> Data' = Data \<and> s' = s)"
  by (auto simp: Mutate_InsertRepeatedBytes_def kMinBytesToInsert_def unf split: if_splits)

lemma Mutate_ChangeByte_res:
  "Mutate_ChangeByte Data Size MaxSize s = Some (n, Data', s') \<Longrightarrow> n = Size"
  by (auto simp: Mutate_ChangeByte_def unf split: if_splits)

lemma Mutate_ChangeBit_res:
  "Mutate_ChangeBit Data Size MaxSize s = Some (n, Data', s') \<Longrightarrow> n = Size"
  by (auto simp: Mutate_ChangeBit_def unf split: if_splits)

lemma Mutate_ShuffleBytes_res:
  "Mutate_ShuffleBytes Data Size MaxSize s = Some (n, Data', s') \<Longrightarrow> n = Size"
  by (auto simp: Mutate_ShuffleBytes_def unf split: if_splits)

lemma Mutate_ChangeASCIIInteger_res:
  "Mutate_ChangeASCIIInteger Data Size MaxSize s = Some (n, Data', s') \<Longrightarrow> 0 < Size \<Longrightarrow>
   (n = Size \<or> n = 0) \<and> (n = 0 \<longrightarrow> Data' = Data \<and> s' = s\<lparr>Rand := Rand s'\<rparr>)"
  by (auto simp: Mutate_ChangeASCIIInteger_def unf split: if_splits)

lemma ChangeBinaryInteger_res:
  "ChangeBinaryInteger T Data Size R = Some (n, Data', R') \<Longrightarrow> 0 < Size \<Longrightarrow>
   (n = Size \<or> n = 0) \<and> (n = 0 \<longrightarrow> Data' = Data)"
  by (auto simp: ChangeBinaryInteger_def unf split: if_splits)

lemma Mutate_ChangeBinaryInteger_res:
  "Mutate_ChangeBinaryInteger Data Size MaxSize s = Some (n, Data', s') \<Longrightarrow> 0 < Size \<Longrightarrow>
   (n = Size \<or> n = 0) \<and> (n = 0 \<longrightarrow> Data' = Data \<and> s' = s\<lparr>Rand := Rand s'\<rparr>)"
  by (auto simp: Mutate_ChangeBinaryInteger_def unf split: if_splits
      dest: ChangeBinaryInteger_res)

lemma CopyPartOf_res:
  "CopyPartOf From FromSize To ToSize s = Some (n, To', s') \<Longrightarrow> n = ToSize"
  by (simp add: CopyPartOf_def unf)

lemma InsertPartOf_res:
  "InsertPartOf b From FromSize To ToSize MaxToSize s = Some (n, To', s') \<Longrightarrow>
   0 < FromSize \<Longrightarrow>
   n \<le> MaxToSize \<and> (n = 0 \<longrightarrow> To' = To \<and> s' = s)"
proof -
  assume a: "InsertPartOf b From FromSize To ToSize MaxToSize s = Some (n, To', s')"
    and f: "0 < FromSize"
  show ?thesis
  proof (cases "ToSize \<ge> MaxToSize")
    case True
    then show ?thesis using a by (simp add: InsertPartOf_def)
  next
    case False
    then have m: "0 < min (MaxToSize - ToSize) FromSize" using f by simp
    define r where "r = fst (Rand_below (min (MaxToSize - ToSize) FromSize) (Rand s))"
    have "r < min (MaxToSize - ToSize) FromSize"
      unfolding r_def by (rule fst_Rand_below_less[OF m])
    then have r: "ToSize + (r + 1) \<le> MaxToSize" using False by arith
    have "n = ToSize + (r + 1)" using a False
      by (cases b) (auto simp: InsertPartOf_def unf r_def)
    then show ?thesis using r by simp
  qed
qed


lemma Mutate_CopyPart_res:
  "Mutate_CopyPart Data Size MaxSize s = Some (n, Data', s') \<Longrightarrow> 0 < Size \<Longrightarrow> Size \<le> MaxSize \<Longrightarrow>
   n \<le> MaxSize \<and> (n = 0 \<longrightarrow> Data' = Data \<and> s' = s\<lparr>Rand := Rand s'\<rparr>)"
proof -
  assume a: "Mutate_CopyPart Data Size MaxSize s = Some (n, Data', s')" and z: "0 < Size" "Size \<le> MaxSize"
  define R1 where "R1 = snd (RandBool (Rand s))"
  show ?thesis
  proof (cases "fst (RandBool (Rand s))")
    case True
    then have "CopyPartOf Data Size Data Size (s\<lparr>Rand := R1\<rparr>) = Some (n, Data', s')"
      using a by (simp add: Mutate_CopyPart_def split_beta R1_def)
    then have "n = Size" by (rule CopyPartOf_res)
    then show ?thesis using z by simp
  next
    case False
    then have i: "InsertPartOf True Data Size Data Size MaxSize (s\<lparr>Rand := R1\<rparr>) = Some (n, Data', s')"
      using a by (simp add: Mutate_CopyPart_def split_beta R1_def)
    from InsertPartOf_res[OF i z(1)] show ?thesis by auto
  qed
qed

lemma Mutate_CrossOver_res:
  "Mutate_CrossOver EF Data Size MaxSize s = Some (n, Data', s') \<Longrightarrow>
   n \<le> MaxSize \<and> (n = 0 \<longrightarrow> Data' = Data \<and> s' = s\<lparr>Rand := Rand s'\<rparr>)"
  by (auto simp: Mutate_CrossOver_def unf split: option.splits if_splits)

subsection \<open>The dictionaries keep their words under mutation\<close>

lemma post_Some: "P x \<Longrightarrow> post (Some x) P"
  by (simp add: post_def)

lemma post_None: "post None P"
  by (simp add: post_def)

lemma post_bind: "(\<And>x. post (f x) P) \<Longrightarrow> post (m \<bind> f) P"
  by (cases m) (simp_all add: post_def)

lemma post_bind_call: "post m Q \<Longrightarrow> (\<And>x. Q x \<Longrightarrow> post (f x) P) \<Longrightarrow> post (m \<bind> f) P"
  by (cases m) (simp_all add: post_def)

lemma post_if: "post a P \<Longrightarrow> post b P \<Longrightarrow> post (if c then a else b) P"
  by simp

lemma post_Let: "post (f x) P \<Longrightarrow> post (Let x f) P"
  by simp

lemma post_case_prod: "post (f (fst p) (snd p)) P \<Longrightarrow> post (case_prod f p) P"
  by (simp add: split_beta)

lemma post_case_option:
  "post a P \<Longrightarrow> (\<And>y. post (f y) P) \<Longrightarrow> post (case_option a f x) P"
  by (cases x) simp_all

lemma postD: "post m P \<Longrightarrow> m = Some x \<Longrightarrow> P x"
  by (simp add: post_def)

lemmas post_intros = post_Some post_None post_bind post_if post_Let post_case_prod post_case_option

lemma dict_frame_refl: "dict_frame s s"
  by (simp add: dict_frame_def)

lemma dict_frame_trans: "dict_frame s s' \<Longrightarrow> dict_frame s' s'' \<Longrightarrow> dict_frame s s''"
  by (simp add: dict_frame_def)

lemma words_update: "i < length D \<Longrightarrow> words (D[i := IncUseCount (D ! i)]) = words D"
  by (simp add: words_def IncUseCount_def map_update) (metis list_update_id map_update)

lemma dict_frame_use_entry: "i < length (dict_of D s) \<Longrightarrow> dict_frame s (use_entry D i s)"
  by (cases D) (simp_all add: dict_frame_def use_entry_def dict_update_def dict_of_def words_update)


lemma Mutate_EraseBytes_post:
  "post (Mutate_EraseBytes Data Size MaxSize s) (\<lambda>(n, Data', s'). dict_frame s s')"
  unfolding Mutate_EraseBytes_def by (intro post_intros) (simp_all add: dict_frame_def)

lemma Mutate_InsertByte_post:
  "post (Mutate_InsertByte Data Size MaxSize s) (\<lambda>(n, Data', s'). dict_frame s s')"
  unfolding Mutate_InsertByte_def by (intro post_intros) (simp_all add: dict_frame_def)

lemma Mutate_InsertRepeatedBytes_post:
  "post (Mutate_InsertRepeatedBytes Data Size MaxSize s) (\<lambda>(n, Data', s'). dict_frame s s')"
  unfolding Mutate_InsertRepeatedBytes_def by (intro post_intros) (simp_all add: dict_frame_def)

lemma Mutate_ChangeByte_post:
  "post (Mutate_ChangeByte Data Size MaxSize s) (\<lambda>(n, Data', s'). dict_frame s s')"
  unfolding Mutate_ChangeByte_def by (intro post_intros) (simp_all add: dict_frame_def)

lemma Mutate_ChangeBit_post:
  "post (Mutate_ChangeBit Data Size MaxSize s) (\<lambda>(n, Data', s'). dict_frame s s')"
  unfolding Mutate_ChangeBit_def by (intro post_intros) (simp_all add: dict_frame_def)

lemma Mutate_ShuffleBytes_post:
  "post (Mutate_ShuffleBytes Data Size MaxSize s) (\<lambda>(n, Data', s'). dict_frame s s')"
  unfolding Mutate_ShuffleBytes_def by (intro post_intros) (simp_all add: dict_frame_def)

lemma Mutate_ChangeASCIIInteger_post:
  "post (Mutate_ChangeASCIIInteger Data Size MaxSize s) (\<lambda>(n, Data', s'). dict_frame s s')"
  unfolding Mutate_ChangeASCIIInteger_def by (intro post_intros) (simp_all add: dict_frame_def)

lemma Mutate_ChangeBinaryInteger_post:
  "post (Mutate_ChangeBinaryInteger Data Size MaxSize s) (\<lambda>(n, Data', s'). dict_frame s s')"
  unfolding Mutate_ChangeBinaryInteger_def by (intro post_intros) (simp_all add: dict_frame_def)

lemma CopyPartOf_post:
  "post (CopyPartOf From FromSize To ToSize s) (\<lambda>(n, Data', s'). dict_frame s s')"
  unfolding CopyPartOf_def by (intro post_intros) (simp_all add: dict_frame_def)

lemma InsertPartOf_post:
  "post (InsertPartOf b From FromSize To ToSize MaxToSize s) (\<lambda>(n, Data', s'). dict_frame s s')"
  unfolding InsertPartOf_def by (intro post_intros) (simp_all add: dict_frame_def)

lemma Mutate_Custom_post:
  "post (Mutate_Custom EF Data Size MaxSize s) (\<lambda>(n, Data', s'). dict_frame s s')"
  unfolding Mutate_Custom_def by (intro post_intros) (simp_all add: dict_frame_def)

lemma Mutate_CustomCrossOver_post:
  "post (Mutate_CustomCrossOver EF Data Size MaxSize s) (\<lambda>(n, Data', s'). dict_frame s s')"
  unfolding Mutate_CustomCrossOver_def by (intro post_intros) (simp_all add: dict_frame_def)

lemma dict_frame_upd:
  "dict_frame s s' \<Longrightarrow> dict_frame s (s'\<lparr>Rand := R\<rparr>)"
  "dict_frame s s' \<Longrightarrow> dict_frame s (s'\<lparr>MutateInPlaceHere := U\<rparr>)"
  "dict_frame s s' \<Longrightarrow> dict_frame s (s'\<lparr>CurrentMutatorSequence := ms\<rparr>)"
  by (simp_all add: dict_frame_def)

lemma Mutate_CopyPart_post:
  "post (Mutate_CopyPart Data Size MaxSize s) (\<lambda>(n, Data', s'). dict_frame s s')"
proof -
  have a: "post (CopyPartOf Data Size Data Size (s\<lparr>Rand := R\<rparr>)) (\<lambda>(n, Data', s'). dict_frame s s')" for R
    using CopyPartOf_post[of Data Size Data Size "s\<lparr>Rand := R\<rparr>"]
    by (auto simp: post_def dict_frame_def split: option.splits)
  have b: "post (InsertPartOf True Data Size Data Size MaxSize (s\<lparr>Rand := R\<rparr>)) (\<lambda>(n, Data', s'). dict_frame s s')" for R
    using InsertPartOf_post[of True Data Size Data Size MaxSize "s\<lparr>Rand := R\<rparr>"]
    by (auto simp: post_def dict_frame_def split: option.splits)
  show ?thesis
    unfolding Mutate_CopyPart_def by (intro post_intros a b)
qed

lemma AddWordFromDictionary_post:
  "post (AddWordFromDictionary D Data Size MaxSize s) (\<lambda>(n, Data', s'). dict_frame s s')"
proof (cases "dict_of D s = []")
  case True
  then show ?thesis by (simp add: AddWordFromDictionary_def post_def dict_frame_def)
next
  case False
  then have i: "fst (Rand_below (length (dict_of D s)) (Rand s)) < length (dict_of D s)"
    by (simp add: fst_Rand_below_less)
  have u: "dict_frame s (use_entry D (fst (Rand_below (length (dict_of D s)) (Rand s))) (s\<lparr>Rand := R\<rparr>))" for R
    using dict_frame_use_entry[of "fst (Rand_below (length (dict_of D s)) (Rand s))" D "s\<lparr>Rand := R\<rparr>"] i
    by (cases D) (simp_all add: dict_of_def dict_frame_def)
  show ?thesis
    unfolding AddWordFromDictionary_def
    by (intro post_intros) (simp_all add: u dict_frame_refl dict_frame_upd)
qed

lemma CrossOver_switch_post:
  "post (CrossOver_switch EF k Data Size Other U MaxSize s) (\<lambda>(n, Data', s'). dict_frame s s')"
proof -
  have c: "dict_frame s s1 \<Longrightarrow> post (CopyPartOf From FromSize To ToSize s1)
             (\<lambda>(n, Data', s'). dict_frame s s')" for From FromSize To ToSize s1
    using CopyPartOf_post[of From FromSize To ToSize s1]
    by (auto simp: post_def dict_frame_def split: option.splits)
  note basic = post_Some post_None post_if post_Let post_case_prod post_case_option
  show ?thesis
    unfolding CrossOver_switch_def
    apply (intro post_if)
      apply (intro post_intros, simp add: dict_frame_def)
     apply (rule post_bind_call[OF InsertPartOf_post])
     apply (clarsimp simp: c post_Some)
    apply (rule CopyPartOf_post)
    done
qed

lemma Mutate_CrossOver_post:
  "post (Mutate_CrossOver EF Data Size MaxSize s) (\<lambda>(n, Data', s'). dict_frame s s')"
proof -
  have sw: "post (CrossOver_switch EF k Data Size Other U MaxSize (s\<lparr>Rand := R, MutateInPlaceHere := V\<rparr>))
              (\<lambda>(n, Data', s'). dict_frame s s')" for k Other U R V
    using CrossOver_switch_post[of EF k Data Size Other U MaxSize "s\<lparr>Rand := R, MutateInPlaceHere := V\<rparr>"]
    by (auto simp: post_def dict_frame_def split: option.splits)
  note basic = post_Some post_None post_if post_Let post_case_prod post_case_option
  show ?thesis
    unfolding Mutate_CrossOver_def
    apply (intro basic)
       apply (simp add: dict_frame_def)
      apply (simp add: dict_frame_def)
     apply (simp add: dict_frame_def)
    apply (rule post_bind_call[OF sw])
    apply (clarsimp)
    apply (intro post_intros)
    apply (simp add: dict_frame_def)
    done
qed

lemma frameD: "post m (\<lambda>(n, Data', s'). dict_frame s s') \<Longrightarrow> m = Some (n, Data', s') \<Longrightarrow> dict_frame s s'"
  by (simp add: post_def)

lemma Fn_frame:
  assumes "Fn EF M Data Size MaxSize s = Some (n, Data', s')"
  shows "dict_frame s s'"
proof (cases M)
  case EraseBytes
  then show ?thesis using assms frameD[OF Mutate_EraseBytes_post] by (simp add: Fn_def)
next
  case InsertByte
  then show ?thesis using assms frameD[OF Mutate_InsertByte_post] by (simp add: Fn_def)
next
  case InsertRepeatedBytes
  then show ?thesis using assms frameD[OF Mutate_InsertRepeatedBytes_post] by (simp add: Fn_def)
next
  case ChangeByte
  then show ?thesis using assms frameD[OF Mutate_ChangeByte_post] by (simp add: Fn_def)
next
  case ChangeBit
  then show ?thesis using assms frameD[OF Mutate_ChangeBit_post] by (simp add: Fn_def)
next
  case ShuffleBytes
  then show ?thesis using assms frameD[OF Mutate_ShuffleBytes_post] by (simp add: Fn_def)
next
  case ChangeASCIIInt
  then show ?thesis using assms frameD[OF Mutate_ChangeASCIIInteger_post] by (simp add: Fn_def)
next
  case ChangeBinInt
  then show ?thesis using assms frameD[OF Mutate_ChangeBinaryInteger_post] by (simp add: Fn_def)
next
  case CopyPart
  then show ?thesis using assms frameD[OF Mutate_CopyPart_post] by (simp add: Fn_def)
next
  case CrossOver
  then show ?thesis using assms frameD[OF Mutate_CrossOver_post] by (simp add: Fn_def)
next
  case AddFromManualDict
  then show ?thesis using assms frameD[OF AddWordFromDictionary_post]
    by (simp add: Fn_def Mutate_AddWordFromManualDictionary_def)
next
  case AddFromTempAutoDict
  then show ?thesis using assms frameD[OF AddWordFromDictionary_post]
    by (simp add: Fn_def Mutate_AddWordFromTemporaryAutoDictionary_def)
next
  case AddFromPersAutoDict
  then show ?thesis using assms frameD[OF AddWordFromDictionary_post]
    by (simp add: Fn_def Mutate_AddWordFromPersistentAutoDictionary_def)
next
  case Custom
  then show ?thesis using assms frameD[OF Mutate_Custom_post] by (simp add: Fn_def)
next
  case CustomCrossOver
  then show ?thesis using assms frameD[OF Mutate_CustomCrossOver_post] by (simp add: Fn_def)
qed

lemma attempt_frame:
  "attempt EF Data Size MaxSize Ms s = Some (M, n, Data', s') \<Longrightarrow> dict_frame s s'"
  by (auto simp: attempt_def Let_def split_beta bind_eq_Some_conv dict_frame_def
      dest!: Fn_frame split: if_splits)

lemma MutateLoop_frame:
  "MutateLoop EF Iter Data Size MaxSize Ms s = Some (n, Data', s') \<Longrightarrow> dict_frame s s'"
proof (induction EF Iter Data Size MaxSize Ms s rule: MutateLoop.induct)
  case (1 EF Iter Data Size MaxSize Ms s)
  show ?case
  proof (cases "Iter < 10")
    case False
    then show ?thesis using "1.prems" by (simp add: MutateLoop.simps dict_frame_refl)
  next
    case True
    then obtain M k D1 s1 where at: "attempt EF Data Size MaxSize Ms s = Some (M, k, D1, s1)"
      using "1.prems" by (auto simp: MutateLoop.simps split: option.splits)
    have f1: "dict_frame s s1" using attempt_frame[OF at] .
    show ?thesis
    proof (cases "k = 0")
      case True
      then have "MutateLoop EF (Iter + 1) D1 Size MaxSize Ms s1 = Some (n, Data', s')"
        using "1.prems" at \<open>Iter < 10\<close> by (simp add: MutateLoop.simps[of EF Iter])
      then have "dict_frame s1 s'"
        using "1.IH"[OF \<open>Iter < 10\<close> at refl refl refl] True by simp
      then show ?thesis using f1 by (rule dict_frame_trans[rotated])
    next
      case False
      then have "s' = s1\<lparr>CurrentMutatorSequence := CurrentMutatorSequence s1 @ [M]\<rparr>"
        using "1.prems" at \<open>Iter < 10\<close>
        by (auto simp: MutateLoop.simps[of EF Iter] bind_eq_Some_conv split: if_splits)
      then show ?thesis using f1 by (simp add: dict_frame_def)
    qed
  qed
qed

lemma MutateImpl_frame:
  "MutateImpl EF Data Size MaxSize Ms s = Some (n, Data', s') \<Longrightarrow> dict_frame s s'"
  by (auto simp: MutateImpl_def bind_eq_Some_conv dict_frame_def split: if_splits
      dest!: MutateLoop_frame)

subsection \<open>Every default mutator stays within the capacity\<close>

lemma AddWordFromDictionary_res:
  "AddWordFromDictionary D Data Size MaxSize s = Some (n, Data', s') \<Longrightarrow> 0 < Size \<Longrightarrow> Size \<le> MaxSize \<Longrightarrow>
   n \<le> MaxSize \<and> (n = 0 \<longrightarrow> Data' = Data \<and> s' = s\<lparr>Rand := Rand s'\<rparr>)"
  by (auto simp: AddWordFromDictionary_def unf split: if_splits)

text \<open>
  C1. Let \<open>M\<close> be one of the thirteen mutators of the default registry and
  \<open>0 < Size \<le> MaxSize\<close>. If \<open>M\<close> returns \<open>n\<close>, then either \<open>n\<close> is not 0 and
  \<open>1 \<le> n \<le> MaxSize\<close>, or \<open>n\<close> is 0 and nothing has happened but draws from the random
  source: the buffer and every other field of the dispatcher are as before.
\<close>

theorem default_mutators_result:
  assumes "M \<in> set (DefaultMutators (MutationDispatcher_new EF R a))"
    and "0 < Size" and "Size \<le> MaxSize"
    and "Fn EF M Data Size MaxSize s = Some (n, Data', s')"
  shows "(n \<noteq> 0 \<longrightarrow> 1 \<le> n \<and> n \<le> MaxSize) \<and>
         (n = 0 \<longrightarrow> Data' = Data \<and> s' = s\<lparr>Rand := Rand s'\<rparr>)"
proof -
  have M: "M \<in> {EraseBytes, InsertByte, InsertRepeatedBytes, ChangeByte, ChangeBit,
                 ShuffleBytes, ChangeASCIIInt, ChangeBinInt, CopyPart, CrossOver,
                 AddFromManualDict, AddFromTempAutoDict, AddFromPersAutoDict}"
    using assms(1) by (simp add: MutationDispatcher_new_def Let_def)
  have "n \<le> MaxSize \<and> (n = 0 \<longrightarrow> Data' = Data \<and> s' = s\<lparr>Rand := Rand s'\<rparr>)"
  proof (cases M)
    case EraseBytes
    then show ?thesis using assms Mutate_EraseBytes_res[of Data Size MaxSize s n Data' s']
      by (auto simp: Fn_def)
  next
    case InsertByte
    then show ?thesis using assms Mutate_InsertByte_res[of Data Size MaxSize s n Data' s']
      by (auto simp: Fn_def)
  next
    case InsertRepeatedBytes
    then show ?thesis using assms Mutate_InsertRepeatedBytes_res[of Data Size MaxSize s n Data' s']
      by (auto simp: Fn_def)
  next
    case ChangeByte
    then show ?thesis using assms Mutate_ChangeByte_res[of Data Size MaxSize s n Data' s']
      by (auto simp: Fn_def)
  next
    case ChangeBit
    then show ?thesis using assms Mutate_ChangeBit_res[of Data Size MaxSize s n Data' s']
      by (auto simp: Fn_def)
  next
    case ShuffleBytes
    then show ?thesis using assms Mutate_ShuffleBytes_res[of Data Size MaxSize s n Data' s']
      by (auto simp: Fn_def)
  next
    case ChangeASCIIInt
    then show ?thesis using assms Mutate_ChangeASCIIInteger_res[of Data Size MaxSize s n Data' s']
      by (auto simp: Fn_def)
  next
    case ChangeBinInt
    then show ?thesis using assms Mutate_ChangeBinaryInteger_res[of Data Size MaxSize s n Data' s']
      by (auto simp: Fn_def)
  next
    case CopyPart
    then show ?thesis using assms Mutate_CopyPart_res[of Data Size MaxSize s n Data' s']
      by (auto simp: Fn_def)
  next
    case CrossOver
    then show ?thesis using assms Mutate_CrossOver_res[of EF Data Size MaxSize s n Data' s']
      by (auto simp: Fn_def)
  next
    case AddFromManualDict
    then show ?thesis using assms AddWordFromDictionary_res[of Manual Data Size MaxSize s n Data' s']
      by (auto simp: Fn_def Mutate_AddWordFromManualDictionary_def)
  next
    case AddFromTempAutoDict
    then show ?thesis using assms AddWordFromDictionary_res[of TempAuto Data Size MaxSize s n Data' s']
      by (auto simp: Fn_def Mutate_AddWordFromTemporaryAutoDictionary_def)
  next
    case AddFromPersAutoDict
    then show ?thesis using assms AddWordFromDictionary_res[of PersistentAuto Data Size MaxSize s n Data' s']
      by (auto simp: Fn_def Mutate_AddWordFromPersistentAutoDictionary_def)
  next
    case Custom
    then show ?thesis using M by simp
  next
    case CustomCrossOver
    then show ?thesis using M by simp
  qed
  then show ?thesis by auto
qed

theorem default_mutators_result_witness:
  "InsertByte \<in> set (DefaultMutators (MutationDispatcher_new plain_host (sconst 0) False)) \<and>
   (0::nat) < 2 \<and> (2::nat) \<le> 4 \<and>
   Fn plain_host InsertByte [1, 2, 0, 0] 2 4 (MutationDispatcher_new plain_host (sconst 0) False)
     = Some (3, [0x21, 1, 2, 0], MutationDispatcher_new plain_host (sconst 0) False) \<and>
   (1::nat) \<le> 3 \<and> (3::nat) \<le> 4"
proof -
  have run: "Fn plain_host InsertByte [1, 2, 0, 0] 2 4 (MutationDispatcher_new plain_host (sconst 0) False)
     = Some (3, [0x21, 1, 2, 0], MutationDispatcher_new plain_host (sconst 0) False)"
    by (simp add: Fn_def Mutate_InsertByte_def Rand_below_def RandCh_def RandBool_def
        memmove_def store_def Special_def sizeof_Special_def MutationDispatcher_new_def plain_host_def Let_def)
  have mem: "InsertByte \<in> set (DefaultMutators (MutationDispatcher_new plain_host (sconst 0) False))"
    by (simp add: MutationDispatcher_new_def plain_host_def Let_def)
  show ?thesis
    using default_mutators_result[OF mem _ _ run] run mem by simp
qed

subsection \<open>InsertRepeatedBytes\<close>

lemma fill_bytes_eq:
  "Idx + N \<le> length Data \<Longrightarrow>
   fill_bytes Data Idx N b = Some (take Idx Data @ replicate N b @ drop (Idx + N) Data)"
proof (induction N arbitrary: Data Idx)
  case 0
  then show ?case by simp
next
  case (Suc N)
  have i: "Idx < length Data" using Suc.prems by simp
  have l: "(Idx + 1) + N \<le> length (Data[Idx := b])" using Suc.prems by simp
  have "fill_bytes Data Idx (Suc N) b = fill_bytes (Data[Idx := b]) (Idx + 1) N b"
    using i by (simp add: store_def)
  also have "\<dots> = Some (take (Idx + 1) (Data[Idx := b]) @ replicate N b
                          @ drop (Idx + 1 + N) (Data[Idx := b]))"
    by (rule Suc.IH[OF l])
  also have "take (Idx + 1) (Data[Idx := b]) = take Idx Data @ [b]"
    using i by (simp add: take_Suc_conv_app_nth)
  also have "drop (Idx + 1 + N) (Data[Idx := b]) = drop (Idx + Suc N) Data"
    by simp
  finally show ?case by (simp add: replicate_app_Cons_same)
qed

text \<open>What the guard of line 133 does: with at most 3 bytes of headroom the call returns 0;
  with more, and a buffer of capacity \<open>MaxSize\<close>, it inserts a run of \<open>N\<close> equal bytes.\<close>

lemma Mutate_InsertRepeatedBytes_zero:
  "MaxSize \<le> Size + 3 \<Longrightarrow> Mutate_InsertRepeatedBytes Data Size MaxSize s = Some (0, Data, s)"
  by (simp add: Mutate_InsertRepeatedBytes_def kMinBytesToInsert_def)

lemma Mutate_InsertRepeatedBytes_inserts:
  assumes "Size + 3 < MaxSize" and "MaxSize \<le> length Data"
  shows "\<exists>N Idx b Data' R'.
           Mutate_InsertRepeatedBytes Data Size MaxSize s = Some (Size + N, Data', s\<lparr>Rand := R'\<rparr>) \<and>
           3 \<le> N \<and> N \<le> min 128 (MaxSize - Size) \<and> Idx \<le> Size \<and>
           take (Size + N) Data' = take Idx Data @ replicate N b @ drop Idx (take Size Data)"
proof -
  define Mx where "Mx = min (MaxSize - Size) 128"
  obtain r R1 where r: "Rand_below (Mx - 3 + 1) (Rand s) = (r, R1)" by fastforce
  define N where "N = r + 3"
  obtain Idx R2 where i: "Rand_below (Size + 1) R1 = (Idx, R2)" by fastforce
  obtain b1 R3 where b1: "RandBool R2 = (b1, R3)" by fastforce
  obtain Byte R4 where byt: "(if b1 then (let (v, R') = Rand_below 256 R3 in (of_nat v, R'))
           else (let (b2, R') = RandBool R3 in (if b2 then 0 else 255, R'))) = (Byte :: byte, R4)"
    by fastforce
  have Mx3: "3 \<le> Mx" "Mx \<le> MaxSize - Size" "Mx \<le> 128" using assms by (auto simp: Mx_def)
  have "r \<le> Mx - 3" using Rand_below_le[OF r] .
  then have N: "3 \<le> N" "N \<le> Mx" using Mx3 by (auto simp: N_def)
  have I: "Idx \<le> Size" using Rand_below_le[OF i] .
  have SN: "Size + N \<le> MaxSize" using N Mx3 assms by linarith
  define D1 where "D1 = take (Idx + N) Data @ take (Size - Idx) (drop Idx Data) @ drop (Idx + N + (Size - Idx)) Data"
  have mm: "memmove Data (Idx + N) Data Idx (Size - Idx) = Some D1"
    using I SN assms by (simp add: memmove_def D1_def)
  have lD1: "length D1 = length Data" using memmove_length[OF mm] .
  define D2 where "D2 = take Idx D1 @ replicate N Byte @ drop (Idx + N) D1"
  have fb: "fill_bytes D1 Idx N Byte = Some D2"
    unfolding D2_def using I SN assms lD1 by (intro fill_bytes_eq) simp
  have run: "Mutate_InsertRepeatedBytes Data Size MaxSize s = Some (Size + N, D2, s\<lparr>Rand := R4\<rparr>)"
    using assms SN N r[unfolded Mx_def] i mm[unfolded N_def] b1 byt fb[unfolded N_def]
    by (simp add: Mutate_InsertRepeatedBytes_def kMinBytesToInsert_def assert_def N_def)
  have t1: "take Idx D1 = take Idx Data" using I SN assms by (simp add: D1_def)
  have t2: "drop (Idx + N) D1 = take (Size - Idx) (drop Idx Data) @ drop (Idx + N + (Size - Idx)) Data"
    using I SN assms by (simp add: D1_def)
  have "take (Size + N) D2 = take Idx Data @ replicate N Byte @ take (Size - Idx) (drop Idx Data)"
    using I SN assms by (simp add: D2_def t1 t2)
  also have "take (Size - Idx) (drop Idx Data) = drop Idx (take Size Data)"
    by (simp add: drop_take)
  finally have tk: "take (Size + N) D2 = take Idx Data @ replicate N Byte @ drop Idx (take Size Data)" .
  show ?thesis
    using run N Mx3 I tk
    by (intro exI[of _ N] exI[of _ Idx] exI[of _ Byte] exI[of _ D2] exI[of _ R4]) (auto simp: Mx_def)
qed

text \<open>
  C3. With exactly 3 bytes of headroom (\<open>MaxSize = Size + 3\<close>)
  \<^verbatim>\<open>Mutate_InsertRepeatedBytes\<close> returns 0 and inserts nothing: the guard of line 133 is
  \<^verbatim>\<open>Size + kMinBytesToInsert >= MaxSize\<close>.
\<close>

theorem Mutate_InsertRepeatedBytes_headroom_3:
  "Mutate_InsertRepeatedBytes Data Size (Size + 3) s = Some (0, Data, s)"
  by (simp add: Mutate_InsertRepeatedBytes_def kMinBytesToInsert_def)

subsection \<open>CrossOver\<close>

text \<open>In cases 1 and 2 of the \<^verbatim>\<open>switch\<close> the destination is the scratch vector at its
  full size \<open>MaxSize\<close>: \<^verbatim>\<open>InsertPartOf\<close> has no room and returns 0, and what is left is
  \<^verbatim>\<open>CopyPartOf\<close> on the scratch vector. The current input \<open>Data\<close> does not take part.\<close>

lemma CrossOver_switch_scratch:
  "k \<noteq> 0 \<Longrightarrow> length U = MaxSize \<Longrightarrow>
   CrossOver_switch EF k Data Size Other U MaxSize s = CopyPartOf Other (length Other) U MaxSize s"
  by (simp add: CrossOver_switch_def InsertPartOf_def)

lemma resize_length: "length (resize n xs) = n"
  by (simp add: resize_def)

text \<open>
  C4. The current input is \<open>[1, 2]\<close> in a buffer of capacity 4, the corpus holds two
  entries \<open>[7]\<close>, the scratch vector is empty and the random source picks case 1 of the
  \<^verbatim>\<open>switch\<close>. \<^verbatim>\<open>Mutate_CrossOver\<close> returns 4 and the buffer \<open>[7, 0, 0, 0]\<close>: a byte of the
  corpus entry written over the zero-filled scratch vector, nothing of \<open>[1, 2]\<close>.
\<close>

theorem Mutate_CrossOver_ignores_input:
  "Mutate_CrossOver plain_host [1, 2, 0, 0] 2 4
     ((MutationDispatcher_new plain_host (0 ## 1 ## sconst 0) False)\<lparr>Corpus := Some [[7], [7]]\<rparr>)
   = Some (4, [7, 0, 0, 0],
       (MutationDispatcher_new plain_host (sconst 0) False)
         \<lparr>Corpus := Some [[7], [7]], MutateInPlaceHere := [7, 0, 0, 0]\<rparr>)"
proof -
  have r: "replicate 3 (0::byte) = [0, 0, 0]"
    by (simp add: numeral_3_eq_3)
  show ?thesis
    by (simp add: Mutate_CrossOver_def CrossOver_switch_def InsertPartOf_def CopyPartOf_def
        Rand_below_def resize_def memmove_def memcpy_def assert_def
        MutationDispatcher_new_def plain_host_def Let_def r)
qed

subsection \<open>Mutate on an empty input\<close>

lemma store_length: "store Data i b = Some Data' \<Longrightarrow> length Data' = length Data"
  by (auto simp: store_def split: if_splits)

lemma fill_RandCh_eq:
  "i + n \<le> length Data \<Longrightarrow>
   \<exists>R'. fill_RandCh Data i n R = Some (take i Data @ RandCh_list n R @ drop (i + n) Data, R')"
proof (induction n arbitrary: Data i R)
  case 0
  then show ?case by simp
next
  case (Suc n)
  obtain c R1 where c: "RandCh R = (c, R1)" by fastforce
  have i: "i < length Data" using Suc.prems by simp
  have l: "(i + 1) + n \<le> length (Data[i := c])" using Suc.prems by simp
  obtain R' where
    "fill_RandCh (Data[i := c]) (i + 1) n R1
       = Some (take (i + 1) (Data[i := c]) @ RandCh_list n R1 @ drop (i + 1 + n) (Data[i := c]), R')"
    using Suc.IH[OF l] by blast
  moreover have "take (i + 1) (Data[i := c]) = take i Data @ [c]"
    using i by (simp add: take_Suc_conv_app_nth)
  moreover have "drop (i + 1 + n) (Data[i := c]) = drop (i + Suc n) Data"
    by simp
  ultimately have "fill_RandCh Data i (Suc n) R
       = Some (take i Data @ RandCh_list (Suc n) R @ drop (i + Suc n) Data, R')"
    using i c by (simp add: store_def)
  then show ?case by blast
qed

lemma RandCh_list_length: "length (RandCh_list n R) = n"
  by (induction n arbitrary: R) (simp_all add: split_beta)

lemma printable_ToASCII_byte: "printable (ToASCII_byte c)"
  by (simp add: ToASCII_byte_def printable_def Let_def)

text \<open>
  C6. \<^verbatim>\<open>Mutate\<close> with \<open>Size = 0\<close> and \<open>MaxSize > 0\<close>, on a buffer of capacity at least
  \<open>MaxSize\<close>, returns, and returns \<open>MaxSize\<close>. The first \<open>MaxSize\<close> bytes of the buffer are
  the bytes that \<open>MaxSize\<close> calls of \<^verbatim>\<open>RandCh\<close> give, whatever the buffer held, each folded
  by \<^verbatim>\<open>ToASCII\<close> when \<^verbatim>\<open>OnlyASCII\<close> is set; every one of them is then printable.
  Only the random source of the dispatcher has changed.
\<close>

theorem Mutate_empty_input:
  assumes "0 < MaxSize" and "MaxSize \<le> length Data"
  shows "\<exists>Data' R'.
           Mutate EF Data 0 MaxSize s = Some (MaxSize, Data', s\<lparr>Rand := R'\<rparr>) \<and>
           length Data' = length Data \<and>
           take MaxSize Data' =
             (if OnlyASCII s then map ToASCII_byte (RandCh_list MaxSize (Rand s))
              else RandCh_list MaxSize (Rand s)) \<and>
           (OnlyASCII s \<longrightarrow> (\<forall>c \<in> set (take MaxSize Data'). printable c))"
proof -
  define D1 where "D1 = RandCh_list MaxSize (Rand s) @ drop MaxSize Data"
  obtain R' where f: "fill_RandCh Data 0 MaxSize (Rand s) = Some (D1, R')"
    using fill_RandCh_eq[of 0 MaxSize Data "Rand s"] assms by (auto simp: D1_def)
  have l1: "length D1 = length Data"
    using assms by (simp add: D1_def RandCh_list_length)
  have t1: "take MaxSize D1 = RandCh_list MaxSize (Rand s)"
    by (simp add: D1_def RandCh_list_length)
  show ?thesis
  proof (cases "OnlyASCII s")
    case False
    then have "Mutate EF Data 0 MaxSize s = Some (MaxSize, D1, s\<lparr>Rand := R'\<rparr>)"
      using assms f by (simp add: Mutate_def MutateImpl_def assert_def)
    then show ?thesis using False l1 t1 by auto
  next
    case True
    define D2 where "D2 = map ToASCII_byte (take MaxSize D1) @ drop MaxSize D1"
    have a: "ToASCII D1 MaxSize = Some D2"
      using assms l1 by (simp add: ToASCII_def D2_def)
    have run: "Mutate EF Data 0 MaxSize s = Some (MaxSize, D2, s\<lparr>Rand := R'\<rparr>)"
      using assms f a True by (simp add: Mutate_def MutateImpl_def assert_def)
    have l2: "length D2 = length Data" using l1 assms by (simp add: D2_def)
    have t2: "take MaxSize D2 = map ToASCII_byte (RandCh_list MaxSize (Rand s))"
      using l1 assms by (simp add: D2_def t1 RandCh_list_length)
    have "\<forall>c \<in> set (take MaxSize D2). printable c"
      unfolding t2 by (auto simp: printable_ToASCII_byte)
    then show ?thesis using run True l2 t2 by auto
  qed
qed

theorem Mutate_empty_input_witness:
  "(0::nat) < 2 \<and> 2 \<le> length [9, 9 :: byte] \<and>
   Mutate plain_host [9, 9] 0 2
     (MutationDispatcher_new plain_host (1 ## 255 ## 1 ## 255 ## sconst 0) True)
     = Some (2, [0x20, 0x20], MutationDispatcher_new plain_host (sconst 0) True) \<and>
   list_all printable [0x20, 0x20]"
proof -
  let ?s = "MutationDispatcher_new plain_host (1 ## 255 ## 1 ## 255 ## sconst 0) True"
  have h1: "(0::nat) < 2" by simp
  have h2: "2 \<le> length [9, 9 :: byte]" by simp
  have f: "fill_RandCh D 0 2 R = fill_RandCh D 0 (Suc (Suc 0)) R" for D R
    by (simp add: numeral_2_eq_2)
  have run: "Mutate plain_host [9, 9] 0 2 ?s
     = Some (2, [0x20, 0x20], MutationDispatcher_new plain_host (sconst 0) True)"
    by (simp add: Mutate_def MutateImpl_def assert_def f RandCh_def RandBool_def
        Rand_below_def store_def ToASCII_def ToASCII_byte_def printable_def
        MutationDispatcher_new_def plain_host_def Let_def)
  have oa: "OnlyASCII ?s"
    by (simp add: MutationDispatcher_new_def Let_def)
  obtain Data' R' where r: "Mutate plain_host [9, 9] 0 2 ?s = Some (2, Data', ?s\<lparr>Rand := R'\<rparr>)"
    and p: "OnlyASCII ?s \<longrightarrow> (\<forall>c \<in> set (take 2 Data'). printable c)"
    using Mutate_empty_input[OF h1 h2, of plain_host ?s] by blast
  from r run have "Data' = [0x20, 0x20]" by simp
  with p oa have pr: "list_all printable [0x20, 0x20]"
    by (simp add: list_all_iff)
  show ?thesis by (intro conjI h1 h2 run pr)
qed

subsection \<open>The dispatch loop\<close>

lemma MutateLoop_char:
  "Iter \<le> 10 \<Longrightarrow>
   MutateLoop EF Iter Data Size MaxSize Ms s = Some (n, Data', s') \<longleftrightarrow>
     (\<exists>k Dk sk M Dm sm. Iter + k < 10 \<and>
        failed_attempts EF k Data Size MaxSize Ms s = Some (Dk, sk) \<and>
        attempt EF Dk Size MaxSize Ms sk = Some (M, n, Dm, sm) \<and> n \<noteq> 0 \<and>
        (if OnlyASCII sm then ToASCII Dm n else Some Dm) = Some Data' \<and>
        s' = sm\<lparr>CurrentMutatorSequence := CurrentMutatorSequence sm @ [M]\<rparr>) \<or>
     (failed_attempts EF (10 - Iter) Data Size MaxSize Ms s = Some (Data', s') \<and> n = Size)"
proof (induction EF Iter Data Size MaxSize Ms s rule: MutateLoop.induct)
  case (1 EF Iter Data Size MaxSize Ms s)
  define S where "S = (\<lambda>k D t. \<exists>Dk sk M Dm sm.
        failed_attempts EF k D Size MaxSize Ms t = Some (Dk, sk) \<and>
        attempt EF Dk Size MaxSize Ms sk = Some (M, n, Dm, sm) \<and> n \<noteq> 0 \<and>
        (if OnlyASCII sm then ToASCII Dm n else Some Dm) = Some Data' \<and>
        s' = sm\<lparr>CurrentMutatorSequence := CurrentMutatorSequence sm @ [M]\<rparr>)"
  define F where "F = (\<lambda>j D t. failed_attempts EF j D Size MaxSize Ms t = Some (Data', s') \<and> n = Size)"
  define L where "L = (\<lambda>i D t. MutateLoop EF i D Size MaxSize Ms t = Some (n, Data', s'))"
  have goal: "L Iter Data s \<longleftrightarrow> (\<exists>k. Iter + k < 10 \<and> S k Data s) \<or> F (10 - Iter) Data s"
  proof (cases "Iter < 10")
    case False
    then have "Iter = 10" using "1.prems" by simp
    then show ?thesis by (auto simp: L_def S_def F_def MutateLoop.simps[of EF 10])
  next
    case lt: True
    then obtain j where j: "10 - Iter = Suc j" "10 - (Iter + 1) = j"
      by (cases "10 - Iter") auto
    have split_k: "(\<exists>k. Iter + k < 10 \<and> S k Data s) \<longleftrightarrow>
                   S 0 Data s \<or> (\<exists>k. Iter + 1 + k < 10 \<and> S (Suc k) Data s)"
      (is "?A \<longleftrightarrow> ?B")
    proof
      assume ?A
      then obtain k where k: "Iter + k < 10" "S k Data s" by blast
      show ?B
      proof (cases k)
        case 0
        then show ?thesis using k by blast
      next
        case (Suc k')
        then have "Iter + 1 + k' < 10 \<and> S (Suc k') Data s" using k by simp
        then show ?thesis by blast
      qed
    next
      assume ?B
      then show ?A
      proof
        assume "S 0 Data s"
        then have "Iter + 0 < 10 \<and> S 0 Data s" using lt by simp
        then show ?A by blast
      next
        assume "\<exists>k. Iter + 1 + k < 10 \<and> S (Suc k) Data s"
        then obtain k where "Iter + 1 + k < 10" "S (Suc k) Data s" by blast
        then have "Iter + Suc k < 10 \<and> S (Suc k) Data s" by simp
        then show ?A by blast
      qed
    qed
    show ?thesis
    proof (cases "attempt EF Data Size MaxSize Ms s")
      case None
      have Leq: "\<not> L Iter Data s"
        using lt None by (simp add: L_def MutateLoop.simps[of EF Iter])
      have S0: "\<not> S 0 Data s" using None by (simp add: S_def)
      have SS: "\<not> S (Suc k) Data s" for k using None by (simp add: S_def)
      have FF: "\<not> F (10 - Iter) Data s" using None j by (simp add: F_def)
      show ?thesis unfolding split_k using Leq S0 SS FF by blast
    next
      case (Some r)
      then obtain M m D1 s1 where at: "attempt EF Data Size MaxSize Ms s = Some (M, m, D1, s1)"
        by (cases r) auto
      show ?thesis
      proof (cases "m = 0")
        case False
        have Leq: "L Iter Data s \<longleftrightarrow>
                 n = m \<and> (if OnlyASCII s1 then ToASCII D1 m else Some D1) = Some Data' \<and>
                 s' = s1\<lparr>CurrentMutatorSequence := CurrentMutatorSequence s1 @ [M]\<rparr>"
          using lt at False
          by (auto simp: L_def MutateLoop.simps[of EF Iter] bind_eq_Some_conv split: if_splits)
        have S0: "S 0 Data s \<longleftrightarrow>
                 n = m \<and> (if OnlyASCII s1 then ToASCII D1 m else Some D1) = Some Data' \<and>
                 s' = s1\<lparr>CurrentMutatorSequence := CurrentMutatorSequence s1 @ [M]\<rparr>"
          using at False by (auto simp: S_def)
        have SS: "\<not> S (Suc k) Data s" for k using at False by (simp add: S_def)
        have FF: "\<not> F (10 - Iter) Data s" using at False j by (simp add: F_def)
        show ?thesis unfolding split_k using Leq S0 SS FF by blast
      next
        case True
        have Leq: "L Iter Data s \<longleftrightarrow> L (Iter + 1) D1 s1"
          using lt at True by (simp add: L_def MutateLoop.simps[of EF Iter])
        have IH: "L (Iter + 1) D1 s1 \<longleftrightarrow>
                  (\<exists>k. Iter + 1 + k < 10 \<and> S k D1 s1) \<or> F (10 - (Iter + 1)) D1 s1"
          using "1.IH"[OF lt at refl refl refl] True lt by (simp add: L_def S_def F_def)
        have S0: "\<not> S 0 Data s" using at True by (auto simp: S_def)
        have SS: "S (Suc k) Data s \<longleftrightarrow> S k D1 s1" for k using at True by (simp add: S_def)
        have FF: "F (10 - Iter) Data s \<longleftrightarrow> F (10 - (Iter + 1)) D1 s1"
          using at True j by (simp add: F_def)
        show ?thesis unfolding split_k using Leq IH S0 SS FF by simp
      qed
    qed
  qed
  show ?case using goal unfolding L_def S_def F_def by blast
qed

text \<open>
  C8. For \<open>0 < Size \<le> MaxSize\<close>, \<^verbatim>\<open>Mutate\<close> returns \<open>(n, Data', s')\<close> exactly in one of
  two ways. Either there is a \<open>k < 10\<close> such that the first \<open>k\<close> passes of the loop drew
  mutators that returned 0 and the mutator \<open>M\<close> of the next pass returned \<open>n \<noteq> 0\<close>; then
  the buffer is the one \<open>M\<close> left, folded by \<^verbatim>\<open>ToASCII\<close> over \<open>n\<close> bytes when
  \<^verbatim>\<open>OnlyASCII\<close> is set, and \<open>M\<close> is appended to the current mutator sequence. Or ten passes
  drew mutators that all returned 0, and \<open>n\<close> is \<open>Size\<close>. There is no eleventh pass.
\<close>

theorem Mutate_dispatch_loop:
  assumes "0 < Size" and "Size \<le> MaxSize"
  shows "Mutate EF Data Size MaxSize s = Some (n, Data', s') \<longleftrightarrow>
     (\<exists>k Dk sk M Dm sm. k < 10 \<and>
        failed_attempts EF k Data Size MaxSize (Mutators s) s = Some (Dk, sk) \<and>
        attempt EF Dk Size MaxSize (Mutators s) sk = Some (M, n, Dm, sm) \<and> n \<noteq> 0 \<and>
        (if OnlyASCII sm then ToASCII Dm n else Some Dm) = Some Data' \<and>
        s' = sm\<lparr>CurrentMutatorSequence := CurrentMutatorSequence sm @ [M]\<rparr>) \<or>
     (failed_attempts EF 10 Data Size MaxSize (Mutators s) s = Some (Data', s') \<and> n = Size)"
proof -
  have "Mutate EF Data Size MaxSize s = MutateLoop EF 0 Data Size MaxSize (Mutators s) s"
    using assms by (simp add: Mutate_def MutateImpl_def assert_def)
  then show ?thesis
    using MutateLoop_char[of 0 EF Data Size MaxSize "Mutators s" s n Data' s'] by simp
qed

theorem Mutate_dispatch_loop_witness:
  "(0::nat) < 1 \<and> (1::nat) \<le> 1 \<and>
   failed_attempts plain_host 10 [5] 1 1
     (Mutators (MutationDispatcher_new plain_host (sconst 0) False))
     (MutationDispatcher_new plain_host (sconst 0) False)
     = Some ([5], MutationDispatcher_new plain_host (sconst 0) False) \<and>
   Mutate plain_host [5] 1 1 (MutationDispatcher_new plain_host (sconst 0) False)
     = Some (1, [5], MutationDispatcher_new plain_host (sconst 0) False)"
proof -
  let ?s = "MutationDispatcher_new plain_host (sconst 0) False"
  have at: "attempt plain_host [5] 1 1 (Mutators ?s) ?s = Some (EraseBytes, 0, [5], ?s)"
    by (simp add: attempt_def Fn_def Mutate_EraseBytes_def assert_def Rand_below_def
        MutationDispatcher_new_def plain_host_def Let_def)
  have fa: "failed_attempts plain_host k [5] 1 1 (Mutators ?s) ?s = Some ([5], ?s)" for k
  proof (induction k)
    case 0
    show ?case by (simp only: failed_attempts.simps)
  next
    case (Suc k)
    show ?case
      by (simp only: failed_attempts.simps at option.case prod.case simp_thms if_True Suc)
  qed
  have h1: "(0::nat) < 1" and h2: "(1::nat) \<le> 1" by simp_all
  have "Mutate plain_host [5] 1 1 ?s = Some (1, [5], ?s)"
    using Mutate_dispatch_loop[OF h1 h2, of plain_host "[5]" ?s 1 "[5]" ?s] fa[of 10] by simp
  then show ?thesis using fa[of 10] by simp
qed

subsection \<open>Recording a successful sequence\<close>

lemma words_IncSuccessCount:
  "i < length D \<Longrightarrow> words (D[i := IncSuccessCount (D ! i)]) = words D"
  by (simp add: words_def IncSuccessCount_def map_update) (metis list_update_id map_update)

lemma words_simps:
  "words [] = []" "words (e # D) = GetW e # words D" "words (D @ D') = words D @ words D'"
  by (simp_all add: words_def)

lemma RecordBody_valid: "RecordBody kMax p s = Some s' \<Longrightarrow> valid_ref s p"
  by (cases p) (simp add: RecordBody_def valid_ref_def split: if_splits)

lemma RecordBody_total: "valid_ref s p \<Longrightarrow> \<exists>s'. RecordBody kMax p s = Some s'"
  by (cases p) (simp add: RecordBody_def valid_ref_def Let_def)

lemma RecordBody_entry:
  assumes "RecordBody kMax p s = Some s'" and "j < length (dict_of D s)"
  shows "j < length (dict_of D s') \<and>
         dict_of D s' ! j = (if (D, j) = p then IncSuccessCount (dict_of D s ! j) else dict_of D s ! j)"
proof -
  obtain Dp i where p: "p = (Dp, i)" by (cases p)
  have i: "i < length (dict_of Dp s)" using RecordBody_valid[OF assms(1)] p by (simp add: valid_ref_def)
  show ?thesis
    using assms i unfolding p
    by (cases Dp; cases D)
       (auto simp: RecordBody_def dict_of_def dict_update_def push_back_def Let_def nth_append
             split: if_splits)
qed

lemma RecordBody_words:
  assumes "RecordBody kMax p s = Some s'"
  shows "words (ManualDictionary s') = words (ManualDictionary s) \<and>
         words (TempAutoDictionary s') = words (TempAutoDictionary s) \<and>
         words (PersistentAutoDictionary s') = words (PersistentAutoDictionary s) @
           (if GetW (entry s p) \<notin> set (words (PersistentAutoDictionary s)) \<and>
               length (PersistentAutoDictionary s) < kMax
            then [GetW (entry s p)] else [])"
proof -
  obtain Dp i where p: "p = (Dp, i)" by (cases p)
  have i: "i < length (dict_of Dp s)" using RecordBody_valid[OF assms(1)] p by (simp add: valid_ref_def)
  have w: "GetW (IncSuccessCount e) = GetW e" for e by (simp add: IncSuccessCount_def)
  show ?thesis
    using assms i unfolding p
    by (cases Dp)
       (auto simp: RecordBody_def dict_of_def dict_update_def push_back_def Let_def entry_def
             ContainsWord_def words_IncSuccessCount w DictionaryEntry_init_def words_simps
             words_def[symmetric] simp del: map_update
             split: if_splits)
qed

lemma RecordBody_other:
  "RecordBody kMax p s = Some s' \<Longrightarrow>
   CurrentDictionaryEntrySequence s' = CurrentDictionaryEntrySequence s"
  by (cases p; cases "fst p")
     (auto simp: RecordBody_def dict_update_def Let_def split: if_splits)

lemma RecordLoop_inv:
  "RecordLoop kMax ps s = Some s' \<Longrightarrow>
   words (ManualDictionary s') = words (ManualDictionary s) \<and>
   words (TempAutoDictionary s') = words (TempAutoDictionary s) \<and>
   (distinct (words (PersistentAutoDictionary s)) \<longrightarrow>
      distinct (words (PersistentAutoDictionary s')))"
proof (induction ps arbitrary: s)
  case Nil
  then show ?case by simp
next
  case (Cons p ps)
  then obtain s1 where b: "RecordBody kMax p s = Some s1" and l: "RecordLoop kMax ps s1 = Some s'"
    by (auto simp: bind_eq_Some_conv)
  have w: "words (ManualDictionary s1) = words (ManualDictionary s)"
    "words (TempAutoDictionary s1) = words (TempAutoDictionary s)"
    "distinct (words (PersistentAutoDictionary s)) \<longrightarrow>
       distinct (words (PersistentAutoDictionary s1))"
    using RecordBody_words[OF b] by auto
  show ?case using Cons.IH[OF l] w by simp
qed

subsection \<open>Invariants of the dictionaries along a run\<close>

lemma length_words: "length (words D) = length D"
  by (simp add: words_def)

lemma kMaxAutoDictSize_eq: "kMaxAutoDictSize = 16384"
  by (simp add: kMaxAutoDictSize_def push_bit_eq_mult)

lemma after_frame: "after r = Some s' \<Longrightarrow> \<exists>n Data'. r = Some (n, Data', s')"
  by (auto simp: after_def split: option.splits)

lemma call_frame:
  assumes "call EF c s = Some s'"
  shows "(length (TempAutoDictionary s) \<le> kMaxAutoDictSize \<longrightarrow>
            length (TempAutoDictionary s') \<le> kMaxAutoDictSize) \<and>
         (distinct (words (PersistentAutoDictionary s)) \<longrightarrow>
            distinct (words (PersistentAutoDictionary s')))"
proof -
  have fr: "dict_frame s s' \<Longrightarrow> ?thesis"
    using length_words[of "TempAutoDictionary s"] length_words[of "TempAutoDictionary s'"]
    by (simp add: dict_frame_def)
  show ?thesis
  proof (cases c)
    case (CallSetCorpus C)
    then show ?thesis using assms by auto
  next
    case CallRandom
    then show ?thesis using assms by auto
  next
    case (CallMutate Data Size MaxSize)
    then show ?thesis using assms fr
      by (auto simp: Mutate_def dest!: after_frame MutateImpl_frame)
  next
    case (CallDefaultMutate Data Size MaxSize)
    then show ?thesis using assms fr
      by (auto simp: DefaultMutate_def dest!: after_frame MutateImpl_frame)
  next
    case (CallMutator M Data Size MaxSize)
    then show ?thesis using assms fr
      by (auto dest!: after_frame Fn_frame)
  next
    case CallStartMutationSequence
    then show ?thesis using assms by (auto simp: StartMutationSequence_def)
  next
    case CallRecordSuccessfulMutationSequence
    then have "RecordLoop (kMaxDictSize EF) (CurrentDictionaryEntrySequence s) s = Some s'"
      using assms by (simp add: RecordSuccessfulMutationSequence_def)
    from RecordLoop_inv[OF this] show ?thesis
      using length_words[of "TempAutoDictionary s"] length_words[of "TempAutoDictionary s'"]
      by simp
  next
    case (CallAddWordToManualDictionary w)
    then show ?thesis using assms by (auto simp: AddWordToManualDictionary_def)
  next
    case (CallAddWordToAutoDictionary DE)
    then show ?thesis using assms
      by (auto simp: AddWordToAutoDictionary_def push_back_def split: if_splits)
  next
    case CallClearAutoDictionary
    then show ?thesis using assms by (auto simp: ClearAutoDictionary_def)
  qed
qed

lemma run_frame:
  "run EF cs s = Some s' \<Longrightarrow>
   (length (TempAutoDictionary s) \<le> kMaxAutoDictSize \<longrightarrow>
      length (TempAutoDictionary s') \<le> kMaxAutoDictSize) \<and>
   (distinct (words (PersistentAutoDictionary s)) \<longrightarrow>
      distinct (words (PersistentAutoDictionary s')))"
proof (induction cs arbitrary: s)
  case Nil
  then show ?case by simp
next
  case (Cons c cs)
  then obtain s1 where c: "call EF c s = Some s1" and r: "run EF cs s1 = Some s'"
    by (auto split: option.splits)
  show ?case using call_frame[OF c] Cons.IH[OF r] by blast
qed

lemma new_dictionaries:
  "TempAutoDictionary (MutationDispatcher_new EF R a) = []"
  "PersistentAutoDictionary (MutationDispatcher_new EF R a) = []"
  "ManualDictionary (MutationDispatcher_new EF R a) = []"
  by (simp_all add: MutationDispatcher_new_def Let_def)

text \<open>
  C10. \<^verbatim>\<open>AddWordToAutoDictionary\<close> leaves the dispatcher as it is when the temporary
  dictionary holds 16384 entries or more; when it changes the dictionary, the dictionary
  held fewer than 16384 entries and the given entry has been appended; below 16384 and
  below the bound of a Dictionary it does append. In every state that a run reaches from
  a new dispatcher the temporary dictionary holds at most 16384 entries.
\<close>

theorem TempAutoDictionary_bound:
  "(16384 \<le> length (TempAutoDictionary s) \<longrightarrow> AddWordToAutoDictionary EF DE s = s) \<and>
   (TempAutoDictionary (AddWordToAutoDictionary EF DE s) \<noteq> TempAutoDictionary s \<longrightarrow>
      length (TempAutoDictionary s) < 16384 \<and>
      TempAutoDictionary (AddWordToAutoDictionary EF DE s) = TempAutoDictionary s @ [DE]) \<and>
   (length (TempAutoDictionary s) < 16384 \<and> length (TempAutoDictionary s) < kMaxDictSize EF \<longrightarrow>
      TempAutoDictionary (AddWordToAutoDictionary EF DE s) = TempAutoDictionary s @ [DE]) \<and>
   (run EF calls (MutationDispatcher_new EF R a) = Some s' \<longrightarrow>
      length (TempAutoDictionary s') \<le> 16384)"
proof (intro conjI impI)
  assume "16384 \<le> length (TempAutoDictionary s)"
  then show "AddWordToAutoDictionary EF DE s = s"
    by (simp add: AddWordToAutoDictionary_def kMaxAutoDictSize_eq)
next
  assume a: "TempAutoDictionary (AddWordToAutoDictionary EF DE s) \<noteq> TempAutoDictionary s"
  then show "length (TempAutoDictionary s) < 16384"
    by (auto simp: AddWordToAutoDictionary_def kMaxAutoDictSize_eq split: if_splits)
  from a show "TempAutoDictionary (AddWordToAutoDictionary EF DE s) = TempAutoDictionary s @ [DE]"
    by (auto simp: AddWordToAutoDictionary_def push_back_def split: if_splits)
next
  assume "length (TempAutoDictionary s) < 16384 \<and> length (TempAutoDictionary s) < kMaxDictSize EF"
  then show "TempAutoDictionary (AddWordToAutoDictionary EF DE s) = TempAutoDictionary s @ [DE]"
    by (simp add: AddWordToAutoDictionary_def push_back_def kMaxAutoDictSize_eq)
next
  assume "run EF calls (MutationDispatcher_new EF R a) = Some s'"
  from run_frame[OF this] show "length (TempAutoDictionary s') \<le> 16384"
    by (simp add: new_dictionaries kMaxAutoDictSize_eq)
qed

theorem TempAutoDictionary_bound_witness:
  "16384 \<le> length (TempAutoDictionary
      ((MutationDispatcher_new plain_host (sconst 0) False)
         \<lparr>TempAutoDictionary := replicate 16384 (DictionaryEntry_init [65] 0)\<rparr>)) \<and>
   AddWordToAutoDictionary plain_host (DictionaryEntry_init [66] 0)
      ((MutationDispatcher_new plain_host (sconst 0) False)
         \<lparr>TempAutoDictionary := replicate 16384 (DictionaryEntry_init [65] 0)\<rparr>)
     = (MutationDispatcher_new plain_host (sconst 0) False)
         \<lparr>TempAutoDictionary := replicate 16384 (DictionaryEntry_init [65] 0)\<rparr> \<and>
   length (TempAutoDictionary (MutationDispatcher_new plain_host (sconst 0) False)) < 16384 \<and>
   length (TempAutoDictionary (MutationDispatcher_new plain_host (sconst 0) False))
     < kMaxDictSize plain_host \<and>
   TempAutoDictionary (AddWordToAutoDictionary plain_host (DictionaryEntry_init [66] 0)
      (MutationDispatcher_new plain_host (sconst 0) False))
     = TempAutoDictionary (MutationDispatcher_new plain_host (sconst 0) False)
         @ [DictionaryEntry_init [66] 0] \<and>
   run plain_host
     [CallAddWordToAutoDictionary (DictionaryEntry_init [65] 0), CallClearAutoDictionary,
      CallAddWordToAutoDictionary (DictionaryEntry_init [66] 0)]
     (MutationDispatcher_new plain_host (sconst 0) False)
     = Some ((MutationDispatcher_new plain_host (sconst 0) False)
               \<lparr>TempAutoDictionary := [DictionaryEntry_init [66] 0]\<rparr>) \<and>
   length (TempAutoDictionary
      ((MutationDispatcher_new plain_host (sconst 0) False)
         \<lparr>TempAutoDictionary := [DictionaryEntry_init [66] 0]\<rparr>)) \<le> 16384"
proof -
  let ?new = "MutationDispatcher_new plain_host (sconst 0) False"
  let ?full = "?new\<lparr>TempAutoDictionary := replicate 16384 (DictionaryEntry_init [65] 0)\<rparr>"
  let ?e = "DictionaryEntry_init [66] 0"
  let ?cs = "[CallAddWordToAutoDictionary (DictionaryEntry_init [65] 0), CallClearAutoDictionary,
      CallAddWordToAutoDictionary ?e]"
  let ?end = "?new\<lparr>TempAutoDictionary := [?e]\<rparr>"
  have full: "16384 \<le> length (TempAutoDictionary ?full)" by simp
  have small: "length (TempAutoDictionary ?new) < 16384"
    "length (TempAutoDictionary ?new) < kMaxDictSize plain_host"
    by (simp_all add: new_dictionaries plain_host_def)
  have r: "run plain_host ?cs ?new = Some ?end"
    by (simp add: AddWordToAutoDictionary_def ClearAutoDictionary_def push_back_def
        kMaxAutoDictSize_eq new_dictionaries plain_host_def)
  note t1 = TempAutoDictionary_bound[of ?full plain_host ?e ?cs "sconst 0" False ?end]
  note t2 = TempAutoDictionary_bound[of ?new plain_host ?e ?cs "sconst 0" False ?end]
  have a: "AddWordToAutoDictionary plain_host ?e ?full = ?full"
    using t1 full by blast
  have b: "TempAutoDictionary (AddWordToAutoDictionary plain_host ?e ?new)
             = TempAutoDictionary ?new @ [?e]"
    using t2 small by blast
  have c: "length (TempAutoDictionary ?end) \<le> 16384"
    using t2 r by blast
  show ?thesis by (intro conjI full a small b r c)
qed

subsection \<open>The persistent dictionary along a run\<close>

text \<open>A run in which a word of the manual dictionary is used and the use is recorded.\<close>

lemma manual_word_run:
  "\<exists>s4. run plain_host
     [CallAddWordToManualDictionary [65], CallMutate [1, 2, 0, 0] 2 4,
      CallRecordSuccessfulMutationSequence]
     (MutationDispatcher_new plain_host (10 ## 0 ## 1 ## sconst 0) False) = Some s4 \<and>
     words (ManualDictionary s4) = [[65]] \<and> words (PersistentAutoDictionary s4) = [[65]]"
proof -
  let ?s0 = "MutationDispatcher_new plain_host (10 ## 0 ## 1 ## sconst 0) False"
  define s1 where "s1 = AddWordToManualDictionary plain_host [65] ?s0"
  have s1: "ManualDictionary s1 = [DictionaryEntry_init [65] (2 ^ 64 - 1)]"
    "PersistentAutoDictionary s1 = []" "Rand s1 = 10 ## 0 ## 1 ## sconst 0"
    "Mutators s1 = DefaultMutators ?s0" "CurrentDictionaryEntrySequence s1 = []"
    by (simp_all add: s1_def AddWordToManualDictionary_def push_back_def new_dictionaries
        plain_host_def MutationDispatcher_new_def Let_def)
  define s2 where "s2 = use_entry Manual 0 (s1\<lparr>Rand := sconst 0\<rparr>)"
  have at: "attempt plain_host [1, 2, 0, 0] 2 4 (Mutators s1) s1
              = Some (AddFromManualDict, 3, [65, 1, 2, 0], s2)"
    by (simp add: attempt_def s1 Fn_def Mutate_AddWordFromManualDictionary_def
        AddWordFromDictionary_def dict_of_def Rand_below_def RandBool_def HasPositionHint_def
        DictionaryEntry_init_def memmove_def memcpy_def s2_def MutationDispatcher_new_def Let_def)
  define s3 where "s3 = s2\<lparr>CurrentMutatorSequence := CurrentMutatorSequence s2 @ [AddFromManualDict]\<rparr>"
  have oa: "\<not> OnlyASCII s2"
    by (simp add: s2_def use_entry_def dict_update_def s1_def AddWordToManualDictionary_def
        MutationDispatcher_new_def Let_def)
  have m: "Mutate plain_host [1, 2, 0, 0] 2 4 s1 = Some (3, [65, 1, 2, 0], s3)"
    using at oa by (simp add: Mutate_def MutateImpl_def assert_def MutateLoop.simps[of _ 0] s3_def)
  have s3: "ManualDictionary s3 = [IncUseCount (DictionaryEntry_init [65] (2 ^ 64 - 1))]"
    "PersistentAutoDictionary s3 = []" "CurrentDictionaryEntrySequence s3 = [(Manual, 0)]"
    by (simp_all add: s3_def s2_def use_entry_def dict_update_def s1)
  obtain s4 where rec: "RecordSuccessfulMutationSequence plain_host s3 = Some s4"
    and s4: "words (ManualDictionary s4) = [[65]]" "words (PersistentAutoDictionary s4) = [[65]]"
    by (simp add: RecordSuccessfulMutationSequence_def RecordBody_def s3 dict_of_def
        dict_update_def ContainsWord_def push_back_def plain_host_def words_def
        IncUseCount_def IncSuccessCount_def DictionaryEntry_init_def)
  have r: "run plain_host
     [CallAddWordToManualDictionary [65], CallMutate [1, 2, 0, 0] 2 4,
      CallRecordSuccessfulMutationSequence] ?s0 = Some s4"
    by (simp only: run.simps call.simps s1_def[symmetric] m after_def option.case prod.case rec)
  show ?thesis using r s4 by blast
qed


text \<open>
  C5, as stated, fails. A new dispatcher gets the word \<open>[65]\<close> in its manual dictionary;
  \<^verbatim>\<open>Mutate\<close> draws the mutator from the manual dictionary, which inserts the word; the
  host records the sequence as successful. The run returns, and the word is then in the
  manual and in the persistent dictionary.
\<close>

theorem persistent_holds_manual_word:
  "run plain_host
     [CallAddWordToManualDictionary [65], CallMutate [1, 2, 0, 0] 2 4,
      CallRecordSuccessfulMutationSequence]
     (MutationDispatcher_new plain_host (10 ## 0 ## 1 ## sconst 0) False) \<noteq> None \<and>
   ContainsWord (ManualDictionary (the (run plain_host
     [CallAddWordToManualDictionary [65], CallMutate [1, 2, 0, 0] 2 4,
      CallRecordSuccessfulMutationSequence]
     (MutationDispatcher_new plain_host (10 ## 0 ## 1 ## sconst 0) False)))) [65] \<and>
   ContainsWord (PersistentAutoDictionary (the (run plain_host
     [CallAddWordToManualDictionary [65], CallMutate [1, 2, 0, 0] 2 4,
      CallRecordSuccessfulMutationSequence]
     (MutationDispatcher_new plain_host (10 ## 0 ## 1 ## sconst 0) False)))) [65]"
proof -
  obtain s4 where r: "run plain_host
     [CallAddWordToManualDictionary [65], CallMutate [1, 2, 0, 0] 2 4,
      CallRecordSuccessfulMutationSequence]
     (MutationDispatcher_new plain_host (10 ## 0 ## 1 ## sconst 0) False) = Some s4"
    and s4: "words (ManualDictionary s4) = [[65]]" "words (PersistentAutoDictionary s4) = [[65]]"
    using manual_word_run by blast
  show ?thesis
    unfolding r using s4 by (simp add: ContainsWord_def words_def)
qed

text \<open>The run above, with the sequence recorded a second time.\<close>

lemma manual_word_recorded_twice:
  "\<exists>s3 s4 s5.
     run plain_host [CallAddWordToManualDictionary [65], CallMutate [1, 2, 0, 0] 2 4]
       (MutationDispatcher_new plain_host (10 ## 0 ## 1 ## sconst 0) False) = Some s3 \<and>
     run plain_host
       [CallAddWordToManualDictionary [65], CallMutate [1, 2, 0, 0] 2 4,
        CallRecordSuccessfulMutationSequence]
       (MutationDispatcher_new plain_host (10 ## 0 ## 1 ## sconst 0) False) = Some s4 \<and>
     run plain_host
       [CallAddWordToManualDictionary [65], CallMutate [1, 2, 0, 0] 2 4,
        CallRecordSuccessfulMutationSequence, CallRecordSuccessfulMutationSequence]
       (MutationDispatcher_new plain_host (10 ## 0 ## 1 ## sconst 0) False) = Some s5 \<and>
     RecordBody 16384 (Manual, 0) s3 = Some s4 \<and>
     RecordBody 16384 (Manual, 0) s4 = Some s5 \<and>
     words (ManualDictionary s3) = [[65]] \<and> words (PersistentAutoDictionary s3) = [] \<and>
     GetW (entry s3 (Manual, 0)) = [65] \<and>
     words (ManualDictionary s4) = [[65]] \<and> words (PersistentAutoDictionary s4) = [[65]] \<and>
     GetW (entry s4 (Manual, 0)) = [65] \<and>
     words (ManualDictionary s5) = [[65]] \<and> words (PersistentAutoDictionary s5) = [[65]]"
proof -
  let ?s0 = "MutationDispatcher_new plain_host (10 ## 0 ## 1 ## sconst 0) False"
  define s1 where "s1 = AddWordToManualDictionary plain_host [65] ?s0"
  have s1: "ManualDictionary s1 = [DictionaryEntry_init [65] (2 ^ 64 - 1)]"
    "PersistentAutoDictionary s1 = []" "Rand s1 = 10 ## 0 ## 1 ## sconst 0"
    "Mutators s1 = DefaultMutators ?s0" "CurrentDictionaryEntrySequence s1 = []"
    by (simp_all add: s1_def AddWordToManualDictionary_def push_back_def new_dictionaries
        plain_host_def MutationDispatcher_new_def Let_def)
  define s2 where "s2 = use_entry Manual 0 (s1\<lparr>Rand := sconst 0\<rparr>)"
  have at: "attempt plain_host [1, 2, 0, 0] 2 4 (Mutators s1) s1
              = Some (AddFromManualDict, 3, [65, 1, 2, 0], s2)"
    by (simp add: attempt_def s1 Fn_def Mutate_AddWordFromManualDictionary_def
        AddWordFromDictionary_def dict_of_def Rand_below_def RandBool_def HasPositionHint_def
        DictionaryEntry_init_def memmove_def memcpy_def s2_def MutationDispatcher_new_def Let_def)
  define s3 where "s3 = s2\<lparr>CurrentMutatorSequence := CurrentMutatorSequence s2 @ [AddFromManualDict]\<rparr>"
  have oa: "\<not> OnlyASCII s2"
    by (simp add: s2_def use_entry_def dict_update_def s1_def AddWordToManualDictionary_def
        MutationDispatcher_new_def Let_def)
  have m: "Mutate plain_host [1, 2, 0, 0] 2 4 s1 = Some (3, [65, 1, 2, 0], s3)"
    using at oa by (simp add: Mutate_def MutateImpl_def assert_def MutateLoop.simps[of _ 0] s3_def)
  have s3: "ManualDictionary s3 = [IncUseCount (DictionaryEntry_init [65] (2 ^ 64 - 1))]"
    "PersistentAutoDictionary s3 = []" "CurrentDictionaryEntrySequence s3 = [(Manual, 0)]"
    by (simp_all add: s3_def s2_def use_entry_def dict_update_def s1)
  have k: "kMaxDictSize plain_host = 16384" by (simp add: plain_host_def)
  have w3: "words (ManualDictionary s3) = [[65]]" "words (PersistentAutoDictionary s3) = []"
    "GetW (entry s3 (Manual, 0)) = [65]"
    by (simp_all add: s3 words_def entry_def dict_of_def IncUseCount_def DictionaryEntry_init_def)
  have v3: "valid_ref s3 (Manual, 0)" by (simp add: valid_ref_def dict_of_def s3)
  obtain s4 where b4: "RecordBody 16384 (Manual, 0) s3 = Some s4"
    using RecordBody_total[OF v3] by blast
  have q4: "CurrentDictionaryEntrySequence s4 = [(Manual, 0)]"
    using RecordBody_other[OF b4] s3 by simp
  have w4: "words (ManualDictionary s4) = [[65]]" "words (PersistentAutoDictionary s4) = [[65]]"
    using RecordBody_words[OF b4] w3 s3 by simp_all
  have e4: "GetW (entry s4 (Manual, 0)) = [65]"
    using RecordBody_entry[OF b4, of 0 Manual] w3(3)
    by (simp add: entry_def dict_of_def s3 IncSuccessCount_def)
  have v4: "valid_ref s4 (Manual, 0)"
    using RecordBody_entry[OF b4, of 0 Manual] by (simp add: valid_ref_def dict_of_def s3)
  obtain s5 where b5: "RecordBody 16384 (Manual, 0) s4 = Some s5"
    using RecordBody_total[OF v4] by blast
  have w5: "words (ManualDictionary s5) = [[65]]" "words (PersistentAutoDictionary s5) = [[65]]"
    using RecordBody_words[OF b5] w4 e4 by simp_all
  have rec3: "RecordSuccessfulMutationSequence plain_host s3 = Some s4"
    by (simp add: RecordSuccessfulMutationSequence_def k s3 b4)
  have rec4: "RecordSuccessfulMutationSequence plain_host s4 = Some s5"
    by (simp add: RecordSuccessfulMutationSequence_def k q4 b5)
  have r3: "run plain_host [CallAddWordToManualDictionary [65], CallMutate [1, 2, 0, 0] 2 4] ?s0
              = Some s3"
    by (simp only: run.simps call.simps s1_def[symmetric] m after_def option.case prod.case)
  have r4: "run plain_host
       [CallAddWordToManualDictionary [65], CallMutate [1, 2, 0, 0] 2 4,
        CallRecordSuccessfulMutationSequence] ?s0 = Some s4"
    by (simp only: run.simps call.simps s1_def[symmetric] m after_def option.case prod.case rec3)
  have r5: "run plain_host
       [CallAddWordToManualDictionary [65], CallMutate [1, 2, 0, 0] 2 4,
        CallRecordSuccessfulMutationSequence, CallRecordSuccessfulMutationSequence] ?s0 = Some s5"
    by (simp only: run.simps call.simps s1_def[symmetric] m after_def option.case prod.case
        rec3 rec4)
  show ?thesis
    by (intro exI[of _ s3] exI[of _ s4] exI[of _ s5] conjI r3 r4 r5 b4 b5 w3 w4 e4 w5)
qed

text \<open>
  C5, amended. In every state that a run reaches from a new dispatcher, no two entries of
  the persistent dictionary hold the same Word. Recording one entry of the sequence
  appends its Word to the persistent dictionary exactly when that dictionary does not
  hold the Word and is below its bound, whatever the manual dictionary holds, and leaves
  the words of the manual dictionary as they are. \<^verbatim>\<open>PrintRecommendedDictionary\<close> prints the
  persistent entries whose Word is not in the manual dictionary.
\<close>

theorem persistent_dictionary_distinct:
  "(run EF calls (MutationDispatcher_new EF R a) = Some s \<longrightarrow>
      distinct (words (PersistentAutoDictionary s))) \<and>
   (RecordBody kMax p t = Some t' \<longrightarrow>
      words (PersistentAutoDictionary t') =
        words (PersistentAutoDictionary t) @
          (if GetW (entry t p) \<notin> set (words (PersistentAutoDictionary t)) \<and>
              length (PersistentAutoDictionary t) < kMax
           then [GetW (entry t p)] else []) \<and>
      words (ManualDictionary t') = words (ManualDictionary t)) \<and>
   PrintRecommendedDictionary u =
     filter (\<lambda>DE. GetW DE \<notin> set (words (ManualDictionary u))) (PersistentAutoDictionary u)"
proof (intro conjI impI)
  assume "run EF calls (MutationDispatcher_new EF R a) = Some s"
  from run_frame[OF this] show "distinct (words (PersistentAutoDictionary s))"
    by (simp add: new_dictionaries words_simps)
next
  assume b: "RecordBody kMax p t = Some t'"
  show "words (PersistentAutoDictionary t') =
        words (PersistentAutoDictionary t) @
          (if GetW (entry t p) \<notin> set (words (PersistentAutoDictionary t)) \<and>
              length (PersistentAutoDictionary t) < kMax
           then [GetW (entry t p)] else [])"
    using RecordBody_words[OF b] by blast
  show "words (ManualDictionary t') = words (ManualDictionary t)"
    using RecordBody_words[OF b] by blast
next
  show "PrintRecommendedDictionary u =
     filter (\<lambda>DE. GetW DE \<notin> set (words (ManualDictionary u))) (PersistentAutoDictionary u)"
    by (simp add: PrintRecommendedDictionary_def ContainsWord_def words_def)
qed

theorem persistent_dictionary_distinct_witness:
  "(run plain_host
       [CallAddWordToManualDictionary [65], CallMutate [1, 2, 0, 0] 2 4,
        CallRecordSuccessfulMutationSequence, CallRecordSuccessfulMutationSequence]
       (MutationDispatcher_new plain_host (10 ## 0 ## 1 ## sconst 0) False)) \<noteq> None \<and>
   distinct (words (PersistentAutoDictionary (the (run plain_host
       [CallAddWordToManualDictionary [65], CallMutate [1, 2, 0, 0] 2 4,
        CallRecordSuccessfulMutationSequence, CallRecordSuccessfulMutationSequence]
       (MutationDispatcher_new plain_host (10 ## 0 ## 1 ## sconst 0) False))))) \<and>
   words (PersistentAutoDictionary (the (run plain_host
       [CallAddWordToManualDictionary [65], CallMutate [1, 2, 0, 0] 2 4,
        CallRecordSuccessfulMutationSequence, CallRecordSuccessfulMutationSequence]
       (MutationDispatcher_new plain_host (10 ## 0 ## 1 ## sconst 0) False)))) = [[65]] \<and>
   (run plain_host
       [CallAddWordToManualDictionary [65], CallMutate [1, 2, 0, 0] 2 4,
        CallRecordSuccessfulMutationSequence]
       (MutationDispatcher_new plain_host (10 ## 0 ## 1 ## sconst 0) False)) \<noteq> None \<and>
   RecordBody 16384 (Manual, 0) (the (run plain_host
       [CallAddWordToManualDictionary [65], CallMutate [1, 2, 0, 0] 2 4]
       (MutationDispatcher_new plain_host (10 ## 0 ## 1 ## sconst 0) False))) = (run plain_host
       [CallAddWordToManualDictionary [65], CallMutate [1, 2, 0, 0] 2 4,
        CallRecordSuccessfulMutationSequence]
       (MutationDispatcher_new plain_host (10 ## 0 ## 1 ## sconst 0) False)) \<and>
   ContainsWord (ManualDictionary (the (run plain_host
       [CallAddWordToManualDictionary [65], CallMutate [1, 2, 0, 0] 2 4]
       (MutationDispatcher_new plain_host (10 ## 0 ## 1 ## sconst 0) False)))) [65] \<and>
   words (PersistentAutoDictionary (the (run plain_host
       [CallAddWordToManualDictionary [65], CallMutate [1, 2, 0, 0] 2 4,
        CallRecordSuccessfulMutationSequence]
       (MutationDispatcher_new plain_host (10 ## 0 ## 1 ## sconst 0) False))))
     = words (PersistentAutoDictionary (the (run plain_host
       [CallAddWordToManualDictionary [65], CallMutate [1, 2, 0, 0] 2 4]
       (MutationDispatcher_new plain_host (10 ## 0 ## 1 ## sconst 0) False)))) @ [[65]] \<and>
   words (ManualDictionary (the (run plain_host
       [CallAddWordToManualDictionary [65], CallMutate [1, 2, 0, 0] 2 4,
        CallRecordSuccessfulMutationSequence]
       (MutationDispatcher_new plain_host (10 ## 0 ## 1 ## sconst 0) False)))) = words (ManualDictionary (the (run plain_host
       [CallAddWordToManualDictionary [65], CallMutate [1, 2, 0, 0] 2 4]
       (MutationDispatcher_new plain_host (10 ## 0 ## 1 ## sconst 0) False)))) \<and>
   RecordBody 16384 (Manual, 0) (the (run plain_host
       [CallAddWordToManualDictionary [65], CallMutate [1, 2, 0, 0] 2 4,
        CallRecordSuccessfulMutationSequence]
       (MutationDispatcher_new plain_host (10 ## 0 ## 1 ## sconst 0) False))) = (run plain_host
       [CallAddWordToManualDictionary [65], CallMutate [1, 2, 0, 0] 2 4,
        CallRecordSuccessfulMutationSequence, CallRecordSuccessfulMutationSequence]
       (MutationDispatcher_new plain_host (10 ## 0 ## 1 ## sconst 0) False)) \<and>
   words (PersistentAutoDictionary (the (run plain_host
       [CallAddWordToManualDictionary [65], CallMutate [1, 2, 0, 0] 2 4,
        CallRecordSuccessfulMutationSequence, CallRecordSuccessfulMutationSequence]
       (MutationDispatcher_new plain_host (10 ## 0 ## 1 ## sconst 0) False))))
     = words (PersistentAutoDictionary (the (run plain_host
       [CallAddWordToManualDictionary [65], CallMutate [1, 2, 0, 0] 2 4,
        CallRecordSuccessfulMutationSequence]
       (MutationDispatcher_new plain_host (10 ## 0 ## 1 ## sconst 0) False)))) @ [] \<and>
   PrintRecommendedDictionary (the (run plain_host
       [CallAddWordToManualDictionary [65], CallMutate [1, 2, 0, 0] 2 4,
        CallRecordSuccessfulMutationSequence, CallRecordSuccessfulMutationSequence]
       (MutationDispatcher_new plain_host (10 ## 0 ## 1 ## sconst 0) False))) = []"
proof -
  let ?s0 = "MutationDispatcher_new plain_host (10 ## 0 ## 1 ## sconst 0) False"
  obtain s3 s4 s5 where
    r3: "run plain_host [CallAddWordToManualDictionary [65], CallMutate [1, 2, 0, 0] 2 4] ?s0 = Some s3"
    and r4: "run plain_host
       [CallAddWordToManualDictionary [65], CallMutate [1, 2, 0, 0] 2 4,
        CallRecordSuccessfulMutationSequence] ?s0 = Some s4"
    and r5: "run plain_host
       [CallAddWordToManualDictionary [65], CallMutate [1, 2, 0, 0] 2 4,
        CallRecordSuccessfulMutationSequence, CallRecordSuccessfulMutationSequence] ?s0 = Some s5"
    and b4: "RecordBody 16384 (Manual, 0) s3 = Some s4"
    and b5: "RecordBody 16384 (Manual, 0) s4 = Some s5"
    and w3: "words (ManualDictionary s3) = [[65]]" "words (PersistentAutoDictionary s3) = []"
      "GetW (entry s3 (Manual, 0)) = [65]"
    and w4: "words (ManualDictionary s4) = [[65]]" "words (PersistentAutoDictionary s4) = [[65]]"
      "GetW (entry s4 (Manual, 0)) = [65]"
    and w5: "words (ManualDictionary s5) = [[65]]" "words (PersistentAutoDictionary s5) = [[65]]"
    using manual_word_recorded_twice by (elim exE conjE)
  have l3: "length (PersistentAutoDictionary s3) < 16384"
    using w3(2) by (simp add: words_def)
  note t_run = persistent_dictionary_distinct
    [of plain_host "[CallAddWordToManualDictionary [65], CallMutate [1, 2, 0, 0] 2 4,
        CallRecordSuccessfulMutationSequence, CallRecordSuccessfulMutationSequence]" "10 ## 0 ## 1 ## sconst 0" False s5 16384 "(Manual, 0)" s3 s4 s5]
  note t_rec = persistent_dictionary_distinct
    [of plain_host "[CallAddWordToManualDictionary [65], CallMutate [1, 2, 0, 0] 2 4,
        CallRecordSuccessfulMutationSequence, CallRecordSuccessfulMutationSequence]" "10 ## 0 ## 1 ## sconst 0" False s5 16384 "(Manual, 0)" s4 s5 s5]
  have d: "distinct (words (PersistentAutoDictionary s5))"
    using t_run r5 by blast
  have a4: "words (PersistentAutoDictionary s4) = words (PersistentAutoDictionary s3) @ [[65]]"
    and m4: "words (ManualDictionary s4) = words (ManualDictionary s3)"
    using t_run b4 w3 l3 by simp_all
  have a5: "words (PersistentAutoDictionary s5) = words (PersistentAutoDictionary s4) @ []"
    using t_rec b5 w4 by simp
  have pr: "PrintRecommendedDictionary s5
              = filter (\<lambda>DE. GetW DE \<notin> set (words (ManualDictionary s5))) (PersistentAutoDictionary s5)"
    using t_run by blast
  have "\<forall>DE \<in> set (PersistentAutoDictionary s5). GetW DE \<in> set (words (ManualDictionary s5))"
    using w5 by (auto simp: words_def)
  then have p: "PrintRecommendedDictionary s5 = []"
    unfolding pr by (simp add: filter_empty_conv)
  have c: "ContainsWord (ManualDictionary s3) [65]"
    using w3(1) by (simp add: ContainsWord_def words_def)
  show ?thesis
    unfolding r3 r4 r5 option.sel
    using d w5(2) b4 c a4 m4 b5 a5 p by simp
qed

subsection \<open>Success counters\<close>

lemma RecordBody_entry_fields:
  assumes "RecordBody kMax p s = Some s'" and "j < length (dict_of D s)"
  shows "j < length (dict_of D s')"
    and "GetW (dict_of D s' ! j) = GetW (dict_of D s ! j)"
    and "GetSuccessCount (dict_of D s' ! j)
           = GetSuccessCount (dict_of D s ! j) + (if p = (D, j) then 1 else 0)"
  using RecordBody_entry[OF assms] by (auto simp: IncSuccessCount_def)

lemma RecordLoop_effect:
  assumes "\<forall>p \<in> set ps. valid_ref s p"
  shows "\<exists>s' new. RecordLoop kMax ps s = Some s' \<and>
     (\<forall>D j. j < length (dict_of D s) \<longrightarrow>
        j < length (dict_of D s') \<and>
        GetW (dict_of D s' ! j) = GetW (dict_of D s ! j) \<and>
        GetSuccessCount (dict_of D s' ! j)
          = GetSuccessCount (dict_of D s ! j) + count_list ps (D, j)) \<and>
     words (PersistentAutoDictionary s') = words (PersistentAutoDictionary s) @ new \<and>
     distinct new \<and> set new \<subseteq> (\<lambda>p. GetW (entry s p)) ` set ps \<and>
     set new \<inter> set (words (PersistentAutoDictionary s)) = {}"
  using assms
proof (induction ps arbitrary: s)
  case Nil
  show ?case by simp
next
  case (Cons p ps)
  have vp: "valid_ref s p" using Cons.prems by simp
  obtain s1 where b: "RecordBody kMax p s = Some s1"
    using RecordBody_total[OF vp] by blast
  have keep: "j < length (dict_of D s) \<Longrightarrow> j < length (dict_of D s1)" for D j
    using RecordBody_entry_fields(1)[OF b] .
  have v1: "\<forall>q \<in> set ps. valid_ref s1 q"
    using Cons.prems keep by (auto simp: valid_ref_def)
  obtain s' new1 where l: "RecordLoop kMax ps s1 = Some s'"
    and c: "\<And>D j. j < length (dict_of D s1) \<Longrightarrow>
        j < length (dict_of D s') \<and>
        GetW (dict_of D s' ! j) = GetW (dict_of D s1 ! j) \<and>
        GetSuccessCount (dict_of D s' ! j)
          = GetSuccessCount (dict_of D s1 ! j) + count_list ps (D, j)"
    and w: "words (PersistentAutoDictionary s') = words (PersistentAutoDictionary s1) @ new1"
    and d: "distinct new1" and sub: "set new1 \<subseteq> (\<lambda>p. GetW (entry s1 p)) ` set ps"
    and dis: "set new1 \<inter> set (words (PersistentAutoDictionary s1)) = {}"
    using Cons.IH[OF v1] by blast
  define n0 where "n0 = (if GetW (entry s p) \<notin> set (words (PersistentAutoDictionary s)) \<and>
               length (PersistentAutoDictionary s) < kMax
            then [GetW (entry s p)] else [])"
  have w1: "words (PersistentAutoDictionary s1) = words (PersistentAutoDictionary s) @ n0"
    using RecordBody_words[OF b] by (simp add: n0_def)
  have run: "RecordLoop kMax (p # ps) s = Some s'" using b l by simp
  have cnt: "\<forall>D j. j < length (dict_of D s) \<longrightarrow>
        j < length (dict_of D s') \<and>
        GetW (dict_of D s' ! j) = GetW (dict_of D s ! j) \<and>
        GetSuccessCount (dict_of D s' ! j)
          = GetSuccessCount (dict_of D s ! j) + count_list (p # ps) (D, j)"
  proof (intro allI impI)
    fix D j assume j: "j < length (dict_of D s)"
    note f = RecordBody_entry_fields[OF b j]
    note g = c[OF f(1)]
    show "j < length (dict_of D s') \<and>
        GetW (dict_of D s' ! j) = GetW (dict_of D s ! j) \<and>
        GetSuccessCount (dict_of D s' ! j)
          = GetSuccessCount (dict_of D s ! j) + count_list (p # ps) (D, j)"
      using f g by auto
  qed
  have ent: "q \<in> set ps \<Longrightarrow> GetW (entry s1 q) = GetW (entry s q)" for q
    using Cons.prems RecordBody_entry_fields(2)[OF b, of "snd q" "fst q"]
    by (auto simp: valid_ref_def entry_def)
  have sub': "set (n0 @ new1) \<subseteq> (\<lambda>p. GetW (entry s p)) ` set (p # ps)"
    using sub ent by (auto simp: n0_def)
  have d': "distinct (n0 @ new1)" using d dis w1 by (auto simp: n0_def)
  have dis': "set (n0 @ new1) \<inter> set (words (PersistentAutoDictionary s)) = {}"
    using dis w1 by (auto simp: n0_def)
  have w': "words (PersistentAutoDictionary s') = words (PersistentAutoDictionary s) @ (n0 @ new1)"
    using w w1 by simp
  show ?case
    using run cnt w' d' sub' dis' by blast
qed

text \<open>A run in which the entries \<open>A\<close>, \<open>B\<close>, \<open>A\<close> of the temporary dictionary are used, one
  \<^verbatim>\<open>Mutate\<close> each, and the sequence is then recorded.\<close>

lemma temp_overwrite_step:
  assumes R: "Rand s = 11 ## e ## 0 ## 0 ## R'" and e: "e < 2"
    and M: "Mutators s = [EraseBytes, InsertByte, InsertRepeatedBytes, ChangeByte, ChangeBit,
                 ShuffleBytes, ChangeASCIIInt, ChangeBinInt, CopyPart, CrossOver,
                 AddFromManualDict, AddFromTempAutoDict, AddFromPersAutoDict]"
    and T: "TempAutoDictionary s = [a, b]"
    and a: "GetW a = [x]" "PositionHint a = None" and b: "GetW b = [y]" "PositionHint b = None"
    and oa: "\<not> OnlyASCII s"
  shows "Mutate plain_host [1, 2] 2 2 s
           = Some (2, [if e = 0 then x else y, 2],
                   (use_entry TempAuto e (s\<lparr>Rand := R'\<rparr>))
                     \<lparr>CurrentMutatorSequence := CurrentMutatorSequence s @ [AddFromTempAutoDict]\<rparr>)"
proof -
  have e01: "e = 0 \<or> e = 1" using e by auto
  have at: "attempt plain_host [1, 2] 2 2 (Mutators s) s
              = Some (AddFromTempAutoDict, 2, [if e = 0 then x else y, 2],
                      use_entry TempAuto e (s\<lparr>Rand := R'\<rparr>))"
    using e01
    by (auto simp: attempt_def R M T a b Fn_def Mutate_AddWordFromTemporaryAutoDictionary_def
        AddWordFromDictionary_def dict_of_def Rand_below_def RandBool_def HasPositionHint_def
        memmove_def memcpy_def Let_def)
  have oa': "\<not> OnlyASCII (use_entry TempAuto e (s\<lparr>Rand := R'\<rparr>))"
    using oa by (simp add: use_entry_def dict_update_def)
  have sq: "CurrentMutatorSequence (use_entry TempAuto e (s\<lparr>Rand := R'\<rparr>)) = CurrentMutatorSequence s"
    by (simp add: use_entry_def dict_update_def)
  show ?thesis
    using at oa' sq by (simp add: Mutate_def MutateImpl_def assert_def MutateLoop.simps[of _ 0])
qed

lemma ABA_run:
  "\<exists>s5 s6. run plain_host ABA_calls ABA_start = Some s5 \<and>
     CurrentDictionaryEntrySequence s5 = [(TempAuto, 0), (TempAuto, 1), (TempAuto, 0)] \<and>
     length (TempAutoDictionary s5) = 2 \<and>
     map GetSuccessCount (TempAutoDictionary s5) = [0, 0] \<and>
     words (TempAutoDictionary s5) = [[65], [66]] \<and>
     PersistentAutoDictionary s5 = [] \<and>
     RecordSuccessfulMutationSequence plain_host s5 = Some s6 \<and>
     map GetSuccessCount (TempAutoDictionary s6) = [2, 1] \<and>
     words (PersistentAutoDictionary s6) = [[65], [66]]"
proof -
  let ?eA = "DictionaryEntry_init [65] 0"
  let ?eB = "DictionaryEntry_init [66] 0"
  let ?Ms = "[EraseBytes, InsertByte, InsertRepeatedBytes, ChangeByte, ChangeBit,
                 ShuffleBytes, ChangeASCIIInt, ChangeBinInt, CopyPart, CrossOver,
                 AddFromManualDict, AddFromTempAutoDict, AddFromPersAutoDict]"
  define step where "step = (\<lambda>s e R'. (use_entry TempAuto e (s\<lparr>Rand := R'\<rparr>))
                     \<lparr>CurrentMutatorSequence := CurrentMutatorSequence s @ [AddFromTempAutoDict]\<rparr>)"
  have step_fields:
    "Rand (step s e R') = R'" "Mutators (step s e R') = Mutators s"
    "OnlyASCII (step s e R') = OnlyASCII s"
    "PersistentAutoDictionary (step s e R') = PersistentAutoDictionary s"
    "TempAutoDictionary (step s e R')
       = (TempAutoDictionary s)[e := IncUseCount (TempAutoDictionary s ! e)]"
    "CurrentDictionaryEntrySequence (step s e R') = CurrentDictionaryEntrySequence s @ [(TempAuto, e)]"
    for s e R'
    by (simp_all add: step_def use_entry_def dict_update_def)
  define s1 where "s1 = AddWordToAutoDictionary plain_host ?eA ABA_start"
  define s2 where "s2 = AddWordToAutoDictionary plain_host ?eB s1"
  define s3 where "s3 = step s2 0 (11 ## 1 ## 0 ## 0 ## 11 ## 0 ## 0 ## 0 ## sconst 0)"
  define s4 where "s4 = step s3 1 (11 ## 0 ## 0 ## 0 ## sconst 0)"
  define s5 where "s5 = step s4 0 (sconst 0)"
  have s2: "Rand s2 = 11 ## 0 ## 0 ## 0 ## 11 ## 1 ## 0 ## 0 ## 11 ## 0 ## 0 ## 0 ## sconst 0"
    "Mutators s2 = ?Ms" "TempAutoDictionary s2 = [?eA, ?eB]" "\<not> OnlyASCII s2"
    "PersistentAutoDictionary s2 = []" "CurrentDictionaryEntrySequence s2 = []"
    by (simp_all add: s2_def s1_def ABA_start_def AddWordToAutoDictionary_def push_back_def
        kMaxAutoDictSize_eq plain_host_def MutationDispatcher_new_def Let_def)
  have e: "GetW ?eA = [65]" "PositionHint ?eA = None" "GetW ?eB = [66]" "PositionHint ?eB = None"
    "GetW (IncUseCount d) = GetW d" "PositionHint (IncUseCount d) = PositionHint d" for d
    by (simp_all add: DictionaryEntry_init_def IncUseCount_def)
  have m1: "Mutate plain_host [1, 2] 2 2 s2 = Some (2, [65, 2], s3)"
    using temp_overwrite_step[of s2 0 _ ?eA ?eB 65 66, OF s2(1) _ s2(2) s2(3) e(1-4) s2(4)]
    by (simp add: s3_def step_def)
  have s3: "Rand s3 = 11 ## 1 ## 0 ## 0 ## 11 ## 0 ## 0 ## 0 ## sconst 0"
    "Mutators s3 = ?Ms" "TempAutoDictionary s3 = [IncUseCount ?eA, ?eB]" "\<not> OnlyASCII s3"
    "PersistentAutoDictionary s3 = []" "CurrentDictionaryEntrySequence s3 = [(TempAuto, 0)]"
    by (simp_all add: s3_def step_fields s2)
  have m2: "Mutate plain_host [1, 2] 2 2 s3 = Some (2, [66, 2], s4)"
    using temp_overwrite_step[of s3 1 _ "IncUseCount ?eA" ?eB 65 66, OF s3(1) _ s3(2) s3(3) _ _ e(3,4) s3(4)]
    by (simp add: s4_def step_def e)
  have s4: "Rand s4 = 11 ## 0 ## 0 ## 0 ## sconst 0"
    "Mutators s4 = ?Ms" "TempAutoDictionary s4 = [IncUseCount ?eA, IncUseCount ?eB]"
    "\<not> OnlyASCII s4"
    "PersistentAutoDictionary s4 = []"
    "CurrentDictionaryEntrySequence s4 = [(TempAuto, 0), (TempAuto, 1)]"
    by (simp_all add: s4_def step_fields s3)
  have m3: "Mutate plain_host [1, 2] 2 2 s4 = Some (2, [65, 2], s5)"
    using temp_overwrite_step[of s4 0 _ "IncUseCount ?eA" "IncUseCount ?eB" 65 66,
        OF s4(1) _ s4(2) s4(3) _ _ _ _ s4(4)]
    by (simp add: s5_def step_def e)
  have s5: "TempAutoDictionary s5 = [IncUseCount (IncUseCount ?eA), IncUseCount ?eB]"
    "PersistentAutoDictionary s5 = []"
    "CurrentDictionaryEntrySequence s5 = [(TempAuto, 0), (TempAuto, 1), (TempAuto, 0)]"
    by (simp_all add: s5_def step_fields s4)
  have r5: "run plain_host ABA_calls ABA_start = Some s5"
    by (simp only: ABA_calls_def run.simps call.simps s1_def[symmetric] s2_def[symmetric]
        m1 m2 m3 after_def option.case prod.case)
  obtain s6 where rec: "RecordSuccessfulMutationSequence plain_host s5 = Some s6"
    and s6: "map GetSuccessCount (TempAutoDictionary s6) = [2, 1]"
      "words (PersistentAutoDictionary s6) = [[65], [66]]"
    by (simp add: RecordSuccessfulMutationSequence_def RecordBody_def s5 dict_of_def
        dict_update_def ContainsWord_def push_back_def plain_host_def words_def
        IncUseCount_def IncSuccessCount_def DictionaryEntry_init_def Let_def)
  have c5: "map GetSuccessCount (TempAutoDictionary s5) = [0, 0]"
    "words (TempAutoDictionary s5) = [[65], [66]]" "length (TempAutoDictionary s5) = 2"
    by (simp_all add: s5 words_def IncUseCount_def DictionaryEntry_init_def)
  show ?thesis by (intro exI[of _ s5] exI[of _ s6] conjI r5 s5 c5 rec s6)
qed

lemma run_append:
  "run EF (cs @ [c]) s = (case run EF cs s of None \<Rightarrow> None | Some s' \<Rightarrow> call EF c s')"
  by (induction cs arbitrary: s) (auto split: option.splits)

text \<open>
  C2, as stated, fails. After the run above the entry sequence is \<open>A, B, A\<close> and both
  success counters are 0. \<^verbatim>\<open>RecordSuccessfulMutationSequence\<close> returns, and the counters are
  then 2 for \<open>A\<close> and 1 for \<open>B\<close>: one increment for each use, not one for each entry.
\<close>

theorem success_count_per_use:
  "run plain_host (ABA_calls @ [CallRecordSuccessfulMutationSequence]) ABA_start \<noteq> None \<and>
   CurrentDictionaryEntrySequence (the (run plain_host ABA_calls ABA_start))
     = [(TempAuto, 0), (TempAuto, 1), (TempAuto, 0)] \<and>
   map GetSuccessCount (TempAutoDictionary (the (run plain_host ABA_calls ABA_start))) = [0, 0] \<and>
   map GetSuccessCount (TempAutoDictionary
     (the (run plain_host (ABA_calls @ [CallRecordSuccessfulMutationSequence]) ABA_start)))
     = [2, 1] \<and>
   map GetSuccessCount (TempAutoDictionary
     (the (run plain_host (ABA_calls @ [CallRecordSuccessfulMutationSequence]) ABA_start)))
     \<noteq> [1, 1]"
proof -
  obtain s5 s6 where r: "run plain_host ABA_calls ABA_start = Some s5"
    and q: "CurrentDictionaryEntrySequence s5 = [(TempAuto, 0), (TempAuto, 1), (TempAuto, 0)]"
    and c5: "map GetSuccessCount (TempAutoDictionary s5) = [0, 0]"
    and rec: "RecordSuccessfulMutationSequence plain_host s5 = Some s6"
    and c6: "map GetSuccessCount (TempAutoDictionary s6) = [2, 1]"
    using ABA_run by (elim exE conjE)
  have r6: "run plain_host (ABA_calls @ [CallRecordSuccessfulMutationSequence]) ABA_start = Some s6"
    by (simp add: run_append r rec)
  show ?thesis unfolding r r6 using q c5 c6 by simp
qed

text \<open>
  C2, amended. Let the entry sequence be \<open>A, B, A\<close> for two different entries that are in
  their dictionaries. \<^verbatim>\<open>RecordSuccessfulMutationSequence\<close> returns; the success counter of
  \<open>A\<close> has grown by 2 and that of \<open>B\<close> by 1, one for each use; the persistent dictionary
  has gained a list of entries whose words are distinct, are words of \<open>A\<close> or \<open>B\<close> and were
  not in it: at most one entry for the word of \<open>A\<close> and at most one for the word of \<open>B\<close>.
\<close>

theorem record_ABA:
  assumes "CurrentDictionaryEntrySequence s = [A, B, A]" and "A \<noteq> B"
    and "valid_ref s A" and "valid_ref s B"
  shows "\<exists>s' new. RecordSuccessfulMutationSequence EF s = Some s' \<and>
     GetSuccessCount (entry s' A) = GetSuccessCount (entry s A) + 2 \<and>
     GetSuccessCount (entry s' B) = GetSuccessCount (entry s B) + 1 \<and>
     words (PersistentAutoDictionary s') = words (PersistentAutoDictionary s) @ new \<and>
     distinct new \<and> set new \<subseteq> {GetW (entry s A), GetW (entry s B)} \<and>
     set new \<inter> set (words (PersistentAutoDictionary s)) = {}"
proof -
  have v: "\<forall>p \<in> set [A, B, A]. valid_ref s p" using assms by simp
  obtain s' new where l: "RecordLoop (kMaxDictSize EF) [A, B, A] s = Some s'"
    and c: "\<And>D j. j < length (dict_of D s) \<Longrightarrow>
        GetSuccessCount (dict_of D s' ! j)
          = GetSuccessCount (dict_of D s ! j) + count_list [A, B, A] (D, j)"
    and w: "words (PersistentAutoDictionary s') = words (PersistentAutoDictionary s) @ new"
    and d: "distinct new" and sub: "set new \<subseteq> (\<lambda>p. GetW (entry s p)) ` set [A, B, A]"
    and dis: "set new \<inter> set (words (PersistentAutoDictionary s)) = {}"
    using RecordLoop_effect[OF v, of "kMaxDictSize EF"] by blast
  have cA: "GetSuccessCount (entry s' A) = GetSuccessCount (entry s A) + 2"
    using c[of "snd A" "fst A"] assms by (simp add: entry_def valid_ref_def)
  have cB: "GetSuccessCount (entry s' B) = GetSuccessCount (entry s B) + 1"
    using c[of "snd B" "fst B"] assms by (simp add: entry_def valid_ref_def)
  have sub': "set new \<subseteq> {GetW (entry s A), GetW (entry s B)}"
    using sub by auto
  have "RecordSuccessfulMutationSequence EF s = Some s'"
    using l assms(1) by (simp add: RecordSuccessfulMutationSequence_def)
  then show ?thesis using cA cB w d sub' dis by blast
qed

theorem record_ABA_witness:
  "CurrentDictionaryEntrySequence (the (run plain_host ABA_calls ABA_start))
     = [(TempAuto, 0), (TempAuto, 1), (TempAuto, 0)] \<and>
   (TempAuto, 0 :: nat) \<noteq> (TempAuto, 1) \<and>
   valid_ref (the (run plain_host ABA_calls ABA_start)) (TempAuto, 0) \<and>
   valid_ref (the (run plain_host ABA_calls ABA_start)) (TempAuto, 1) \<and>
   (\<exists>s' new.
      RecordSuccessfulMutationSequence plain_host (the (run plain_host ABA_calls ABA_start))
        = Some s' \<and>
      GetSuccessCount (entry s' (TempAuto, 0))
        = GetSuccessCount (entry (the (run plain_host ABA_calls ABA_start)) (TempAuto, 0)) + 2 \<and>
      GetSuccessCount (entry s' (TempAuto, 1))
        = GetSuccessCount (entry (the (run plain_host ABA_calls ABA_start)) (TempAuto, 1)) + 1 \<and>
      words (PersistentAutoDictionary s')
        = words (PersistentAutoDictionary (the (run plain_host ABA_calls ABA_start))) @ new \<and>
      distinct new \<and>
      set new \<subseteq> {GetW (entry (the (run plain_host ABA_calls ABA_start)) (TempAuto, 0)),
                    GetW (entry (the (run plain_host ABA_calls ABA_start)) (TempAuto, 1))} \<and>
      set new \<inter> set (words (PersistentAutoDictionary (the (run plain_host ABA_calls ABA_start))))
        = {})"
proof -
  obtain s5 where r: "run plain_host ABA_calls ABA_start = Some s5"
    and q: "CurrentDictionaryEntrySequence s5 = [(TempAuto, 0), (TempAuto, 1), (TempAuto, 0)]"
    and len: "length (TempAutoDictionary s5) = 2"
    using ABA_run by (elim exE conjE)
  have ne: "(TempAuto, 0 :: nat) \<noteq> (TempAuto, 1)" by simp
  have vA: "valid_ref s5 (TempAuto, 0)" and vB: "valid_ref s5 (TempAuto, 1)"
    using len by (simp_all add: valid_ref_def dict_of_def)
  show ?thesis
    unfolding r option.sel
    using record_ABA[OF q ne vA vB, of plain_host] q ne vA vB by blast
qed

subsection \<open>AddWordFromDictionary\<close>



lemma dict_of_Rand [simp]: "dict_of D (s\<lparr>Rand := R\<rparr>) = dict_of D s"
  by (cases D) (simp_all add: dict_of_def)






end
